theory Spec2Isabelle
  imports Main "HOL-Library.Char_ord" "HOL-Library.List_Lexorder"
begin

section \<open>Blade builtin tools: a shallow embedding of \<open>blade/builtin_tools.py\<close>\<close>

text \<open>
  The module is Python 2 (\<open>len(manifest) / 2\<close> is used as a slice index, a \<open>str\<close> is
  written to a file opened in mode \<open>wb\<close>). Strings are byte strings, modelled as
  \<open>string\<close>; an exception is a value of type \<open>error\<close>.
\<close>

subsection \<open>Python string operations\<close>

definition startswith :: "string \<Rightarrow> string \<Rightarrow> bool" where
  "startswith s p = (take (length p) s = p)"

definition endswith :: "string \<Rightarrow> string \<Rightarrow> bool" where
  "endswith s p = (length p \<le> length s \<and> drop (length s - length p) s = p)"

definition str_find :: "string \<Rightarrow> char \<Rightarrow> int" where
  \<comment> \<open>\<open>s.find(c)\<close>: the index of the first \<open>c\<close>, or \<open>-1\<close>.\<close>
  "str_find s c =
     (if c \<in> set s then int (length (takeWhile (\<lambda>x. x \<noteq> c) s)) else - 1)"

definition slice :: "string \<Rightarrow> int \<Rightarrow> int \<Rightarrow> string" where
  \<comment> \<open>\<open>s[a:b]\<close> for indices that are not negative.\<close>
  "slice s a b = drop (nat a) (take (nat b) s)"

definition slice_from :: "string \<Rightarrow> int \<Rightarrow> string" where
  \<comment> \<open>\<open>s[a:]\<close> for an index that is not negative.\<close>
  "slice_from s a = drop (nat a) s"

subsection \<open>\<open>parse_command_line\<close>\<close>

type_synonym options = "string \<rightharpoonup> string"

definition parse_arg :: "options \<times> string list \<Rightarrow> string \<Rightarrow> options \<times> string list" where
  \<comment> \<open>The body of the \<open>for arg in argv\<close> loop.\<close>
  "parse_arg st arg =
     (let (options, args) = st in
      if startswith arg ''--'' then
        (let pos = str_find arg CHR ''='' in
         if pos < 0 then (options, args @ [arg])
         else
           (let name = slice arg 2 pos;
                val = slice_from arg (pos + 1)
            in (options(name \<mapsto> val), args)))
      else (options, args @ [arg]))"

definition parse_command_line :: "string list \<Rightarrow> options \<times> string list" where
  "parse_command_line argv = foldl parse_arg (Map.empty, []) argv"

text \<open>The classification in the words of the docstring: an option has the form \<open>--name=value\<close>.\<close>

definition is_option_arg :: "string \<Rightarrow> bool" where
  "is_option_arg a = (startswith a ''--'' \<and> CHR ''='' \<in> set a)"

definition option_name :: "string \<Rightarrow> string" where
  "option_name a = takeWhile (\<lambda>x. x \<noteq> CHR ''='') (drop 2 a)"

definition option_value :: "string \<Rightarrow> string" where
  "option_value a = tl (dropWhile (\<lambda>x. x \<noteq> CHR ''='') a)"

subsection \<open>Errors, files and the file system\<close>

datatype error =
    AssertionError
  | IndexError
  | IOError
  | UnboundLocalError
  | BadZipfile
  | EvalError
  | KeyError

text \<open>
  The content of a file, as far as the tools look into it: plain bytes; a library
  descriptor (the text that \<open>generate_python_library\<close> prints, which \<open>eval\<close> turns
  into a dictionary with \<open>base_dir\<close> and \<open>srcs\<close>); a closed zip archive with its members in
  the order of its name list; a closed tar archive with its write mode; an archive that
  was opened for writing and never closed; and bytes written in front of another content.
  A member of an archive is a name and a content.
\<close>

datatype blob =
    Plain string
  | Descriptor string "(string \<times> string) list"
  | ZipArchive "(string \<times> blob) list"
  | TarArchive string "(string \<times> blob) list"
  | Unfinished
  | Prefixed string blob

type_synonym entry = "string \<times> blob"

record filesys =
  files :: "string \<rightharpoonup> blob"
  modes :: "string \<rightharpoonup> nat"

definition read_file :: "filesys \<Rightarrow> string \<Rightarrow> error + blob" where
  \<comment> \<open>Reading a path that is not a file raises.\<close>
  "read_file fs p = (case files fs p of None \<Rightarrow> Inl IOError | Some b \<Rightarrow> Inr b)"

definition write_file :: "filesys \<Rightarrow> string \<Rightarrow> blob \<Rightarrow> filesys" where
  "write_file fs p b = fs\<lparr>files := (files fs)(p \<mapsto> b)\<rparr>"

definition chmod :: "filesys \<Rightarrow> string \<Rightarrow> nat \<Rightarrow> filesys" where
  "chmod fs p m = fs\<lparr>modes := (modes fs)(p \<mapsto> m)\<rparr>"

abbreviation nl :: char where
  "nl \<equiv> CHR 0x0A"

fun str_join :: "string \<Rightarrow> string list \<Rightarrow> string" where
  "str_join sep [] = []"
| "str_join sep [x] = x"
| "str_join sep (x # y # ys) = x @ sep @ str_join sep (y # ys)"

fun str_split :: "char \<Rightarrow> string \<Rightarrow> string list" where
  \<comment> \<open>\<open>s.split(sep)\<close> for a separator of one character\<close>
  "str_split sep [] = [[]]"
| "str_split sep (c # cs) =
     (if c = sep then [] # str_split sep cs
      else (case str_split sep cs of
              [] \<Rightarrow> [[c]]
            | x # xs \<Rightarrow> (c # x) # xs))"

subsection \<open>Names of archive members\<close>

text \<open>
  \<open>ZipFile.write(filename, arcname)\<close> does not store \<open>arcname\<close> as it is given: the
  library replaces it by \<open>os.path.normpath(arcname)\<close> and then removes the leading slashes,
  \<open>while arcname[0] in (os.sep, os.altsep): arcname = arcname[1:]\<close>, which raises when
  nothing is left. \<open>TarFile.add(name, arcname)\<close> removes the leading slashes of \<open>arcname\<close>
  and skips a file that is the archive itself; files are told apart by their paths.
  \<open>ZipFile.writestr(name, bytes)\<close> keeps the name. The zip library cuts a member name at
  a NUL character; the names of files and the arguments of a process have none, and the
  names of the model are taken without it.
\<close>

definition normpath_step :: "nat \<Rightarrow> string list \<Rightarrow> string \<Rightarrow> string list" where
  \<comment> \<open>the body of the loop \<open>for comp in comps\<close> of \<open>posixpath.normpath\<close>\<close>
  "normpath_step initial_slashes new_comps comp' =
     (if comp' = [] \<or> comp' = ''.'' then new_comps
      else if comp' \<noteq> ''..'' \<or> (initial_slashes = 0 \<and> new_comps = [])
              \<or> (new_comps \<noteq> [] \<and> last new_comps = ''..'')
      then new_comps @ [comp']
      else if new_comps \<noteq> [] then butlast new_comps
      else new_comps)"

definition normpath :: "string \<Rightarrow> string" where
  \<comment> \<open>\<open>posixpath.normpath\<close>\<close>
  "normpath path =
     (if path = [] then ''.''
      else
        (let initial_slashes =
               (if startswith path ''/'' then
                  (if startswith path ''//'' \<and> \<not> startswith path ''///'' then 2 else 1)
                else 0);
             comps = str_split CHR ''/'' path;
             new_comps = foldl (normpath_step initial_slashes) [] comps;
             joined = str_join ''/'' new_comps;
             result = (if initial_slashes \<noteq> 0
                       then replicate initial_slashes CHR ''/'' @ joined else joined)
         in if result = [] then ''.'' else result))"

definition lstrip_slash :: "string \<Rightarrow> string" where
  \<comment> \<open>\<open>s.lstrip('/')\<close>\<close>
  "lstrip_slash s = dropWhile (\<lambda>c. c = CHR ''/'') s"

definition zip_arcname :: "string \<Rightarrow> error + string" where
  \<comment> \<open>the member name that \<open>ZipFile.write\<close> makes of its argument \<open>arcname\<close>\<close>
  "zip_arcname arcname =
     (let name = lstrip_slash (normpath arcname) in
      if name = [] then Inl IndexError else Inr name)"

definition stored_name :: "string \<Rightarrow> string" where
  \<comment> \<open>that name, where there is one\<close>
  "stored_name arcname = (case zip_arcname arcname of Inr name \<Rightarrow> name | Inl e \<Rightarrow> [])"

subsection \<open>The package composer\<close>

definition PACKAGE_MANIFEST :: string where
  "PACKAGE_MANIFEST = ''MANIFEST.TXT''"

definition md5sum_file :: "(blob \<Rightarrow> string) \<Rightarrow> filesys \<Rightarrow> string \<Rightarrow> error + string" where
  \<comment> \<open>Modelled from the spec: \<open>blade_util.md5sum_file\<close> is not among the sources; it is the
      content digest of the file at the path, the digest function being the parameter
      \<open>md5\<close>.\<close>
  "md5sum_file md5 fs p = (case read_file fs p of Inl e \<Rightarrow> Inl e | Inr b \<Rightarrow> Inr (md5 b))"

definition zip_write :: "filesys \<Rightarrow> string \<Rightarrow> string \<Rightarrow> entry list \<Rightarrow> error + entry list" where
  \<comment> \<open>\<open>ZipFile.write(filename, arcname)\<close>: the file is looked up, the name is normalised,
      and the bytes of the file become a new member; the argument list holds the members
      written so far.\<close>
  "zip_write fs filename arcname es =
     (case read_file fs filename of
        Inl e \<Rightarrow> Inl e
      | Inr b \<Rightarrow>
          (case zip_arcname arcname of
             Inl e \<Rightarrow> Inl e
           | Inr name \<Rightarrow> Inr (es @ [(name, b)])))"

definition tar_add ::
  "filesys \<Rightarrow> string \<Rightarrow> string \<Rightarrow> string \<Rightarrow> entry list \<Rightarrow> error + entry list" where
  \<comment> \<open>\<open>TarFile.add(name, arcname)\<close> of the archive opened at \<open>tarname\<close>: the archive itself
      is skipped; otherwise the bytes of the file become a new member whose name is
      \<open>arcname\<close> without its leading slashes.\<close>
  "tar_add fs tarname name arcname es =
     (if name = tarname then Inr es
      else case read_file fs name of
             Inl e \<Rightarrow> Inl e
           | Inr b \<Rightarrow> Inr (es @ [(lstrip_slash arcname, b)]))"

definition writestr :: "string \<Rightarrow> blob \<Rightarrow> entry list \<Rightarrow> entry list" where
  \<comment> \<open>\<open>ZipFile.writestr(name, bytes)\<close>.\<close>
  "writestr name b es = es @ [(name, b)]"

fun archive_package_sources_loop ::
  "(blob \<Rightarrow> string) \<Rightarrow> filesys \<Rightarrow> (string \<Rightarrow> string \<Rightarrow> entry list \<Rightarrow> error + entry list) \<Rightarrow>
   nat \<Rightarrow> string list \<Rightarrow> string list \<Rightarrow> entry list \<times> string list \<Rightarrow>
   error + (entry list \<times> string list)" where
  "archive_package_sources_loop md5 fs package i [] destinations st = Inr st"
| "archive_package_sources_loop md5 fs package i (s # sources) destinations (es, manifest) =
     (if length destinations \<le> i then Inl IndexError
      else case package s (destinations ! i) es of
        Inl e \<Rightarrow> Inl e
      | Inr es' \<Rightarrow>
          (case md5sum_file md5 fs s of
             Inl e \<Rightarrow> Inl e
           | Inr digest \<Rightarrow>
               archive_package_sources_loop md5 fs package (Suc i) sources destinations
                 (es', manifest @ [digest @ '' '' @ destinations ! i])))"

definition archive_package_sources ::
  "(blob \<Rightarrow> string) \<Rightarrow> filesys \<Rightarrow> (string \<Rightarrow> string \<Rightarrow> entry list \<Rightarrow> error + entry list) \<Rightarrow>
   entry list \<Rightarrow> string list \<Rightarrow> string list \<Rightarrow> error + (entry list \<times> string list)" where
  \<comment> \<open>The archive handle is the list of members written so far; the result is that list
      and the manifest lines.\<close>
  "archive_package_sources md5 fs package es sources destinations =
     archive_package_sources_loop md5 fs package 0 sources destinations (es, [])"

definition generate_zip_package ::
  "(blob \<Rightarrow> string) \<Rightarrow> filesys \<Rightarrow> string \<Rightarrow> string list \<Rightarrow> string list \<Rightarrow>
   (error + unit) \<times> filesys" where
  "generate_zip_package md5 fs path sources destinations =
     (let fs1 = write_file fs path Unfinished in
      case archive_package_sources md5 fs1 (zip_write fs1) [] sources destinations of
        Inl e \<Rightarrow> (Inl e, fs1)
      | Inr (es, manifest) \<Rightarrow>
          (let es' = writestr PACKAGE_MANIFEST (Plain (str_join [nl] manifest @ [nl])) es
           in (Inr (), write_file fs1 path (ZipArchive es'))))"

definition TAR_WRITE_MODES :: "(string \<times> string) list" where
  "TAR_WRITE_MODES =
     [(''tar'', ''w''), (''tar.gz'', ''w:gz''), (''tgz'', ''w:gz''),
      (''tar.bz2'', ''w:bz2''), (''tbz'', ''w:bz2'')]"

definition generate_tar_package ::
  "(blob \<Rightarrow> string) \<Rightarrow> filesys \<Rightarrow> string \<Rightarrow> string list \<Rightarrow> string list \<Rightarrow> string \<Rightarrow>
   (error + unit) \<times> filesys" where
  "generate_tar_package md5 fs path sources destinations suffix =
     (case map_of TAR_WRITE_MODES suffix of
        None \<Rightarrow> (Inl KeyError, fs)
      | Some mode \<Rightarrow>
          (let fs1 = write_file fs path Unfinished in
           case archive_package_sources md5 fs1 (tar_add fs1 path) [] sources destinations of
             Inl e \<Rightarrow> (Inl e, fs1)
           | Inr (es, manifest) \<Rightarrow>
               (let manifest_path = path @ ''.MANIFEST'';
                    fs2 = write_file fs1 manifest_path (Plain (str_join [nl] manifest @ [nl, nl]))
                in case tar_add fs2 path manifest_path PACKAGE_MANIFEST es of
                     Inl e \<Rightarrow> (Inl e, fs2)
                   | Inr es' \<Rightarrow> (Inr (), write_file fs2 path (TarArchive mode es')))))"

definition generate_package :: "(blob \<Rightarrow> string) \<Rightarrow> filesys \<Rightarrow> string list \<Rightarrow> (error + unit) \<times> filesys" where
  "generate_package md5 fs args =
     (case args of
        [] \<Rightarrow> (Inl IndexError, fs)
      | path # manifest \<Rightarrow>
          if length manifest mod 2 \<noteq> 0 then (Inl AssertionError, fs)
          else
            (let middle = length manifest div 2;
                 sources = take middle manifest;
                 destinations = drop middle manifest
             in if endswith path ''.zip'' then generate_zip_package md5 fs path sources destinations
                else
                  (case find (endswith path) (map fst TAR_WRITE_MODES) of
                     None \<Rightarrow> (Inl UnboundLocalError, fs)
                   | Some suffix \<Rightarrow> generate_tar_package md5 fs path sources destinations suffix)))"



fun archive_members :: "blob \<Rightarrow> entry list" where
  "archive_members (ZipArchive es) = es"
| "archive_members (TarArchive mode es) = es"
| "archive_members b = []"


text \<open>
  What the manifest claims speak of: the name a destination has in the archive written at
  a path, the members that pair each source's content with that name, and the manifest
  lines recomputed from the contents of the members of an archive.
\<close>

definition member_name :: "string \<Rightarrow> string \<Rightarrow> string" where
  "member_name path destination =
     (if endswith path ''.zip'' then stored_name destination else lstrip_slash destination)"

definition packaged_members :: "filesys \<Rightarrow> string \<Rightarrow> string list \<Rightarrow> string list \<Rightarrow> entry list" where
  "packaged_members fs path sources destinations =
     map2 (\<lambda>s d. (member_name path d, the (files fs s))) sources destinations"

definition digest_lines :: "(blob \<Rightarrow> string) \<Rightarrow> blob list \<Rightarrow> string list \<Rightarrow> string list" where
  "digest_lines md5 contents destinations =
     map2 (\<lambda>c d. md5 c @ '' '' @ d) contents destinations"

definition storable :: "string \<Rightarrow> string \<Rightarrow> bool" where
  \<comment> \<open>the archive written at the path accepts the destination as a member name\<close>
  "storable path destination =
     (if endswith path ''.zip''
      then (case zip_arcname destination of Inr name \<Rightarrow> True | Inl e \<Rightarrow> False)
      else True)"


definition example_digest :: "blob \<Rightarrow> string" where
  \<comment> \<open>A digest function for the worked examples; the theorems hold for every digest
      function.\<close>
  "example_digest b = (case b of Plain s \<Rightarrow> ''md5('' @ s @ '')'' | _ \<Rightarrow> ''md5(...)'')"

definition example_fs :: filesys where
  "example_fs = \<lparr>files = [''a.txt'' \<mapsto> Plain ''alpha'', ''b.txt'' \<mapsto> Plain ''beta''],
                  modes = Map.empty\<rparr>"

subsection \<open>Paths and archives read by the composers\<close>

definition dirname_head :: "string \<Rightarrow> string" where
  \<comment> \<open>\<open>p[:p.rfind('/') + 1]\<close>: the path up to and with its last slash.\<close>
  "dirname_head p = rev (dropWhile (\<lambda>c. c \<noteq> CHR ''/'') (rev p))"

definition rstrip_slash :: "string \<Rightarrow> string" where
  \<comment> \<open>\<open>s.rstrip('/')\<close>\<close>
  "rstrip_slash s = rev (dropWhile (\<lambda>c. c = CHR ''/'') (rev s))"

definition dirname :: "string \<Rightarrow> string" where
  \<comment> \<open>\<open>posixpath.dirname\<close>\<close>
  "dirname p =
     (let head = dirname_head p in
      if head \<noteq> [] \<and> head \<noteq> replicate (length head) CHR ''/'' then rstrip_slash head
      else head)"

definition basename :: "string \<Rightarrow> string" where
  \<comment> \<open>\<open>posixpath.basename\<close>: \<open>p[p.rfind('/') + 1:]\<close>\<close>
  "basename p = rev (takeWhile (\<lambda>c. c \<noteq> CHR ''/'') (rev p))"

definition path_join :: "string \<Rightarrow> string \<Rightarrow> string" where
  \<comment> \<open>\<open>posixpath.join\<close> of two components\<close>
  "path_join a b =
     (if startswith b ''/'' then b
      else if a = [] \<or> endswith a ''/'' then a @ b
      else a @ ''/'' @ b)"

definition lower_char :: "char \<Rightarrow> char" where
  "lower_char c =
     (if CHR ''A'' \<le> c \<and> c \<le> CHR ''Z'' then char_of (of_char c + (32::nat)) else c)"

definition upper_char :: "char \<Rightarrow> char" where
  "upper_char c =
     (if CHR ''a'' \<le> c \<and> c \<le> CHR ''z'' then char_of (of_char c - (32::nat)) else c)"

definition str_lower :: "string \<Rightarrow> string" where
  "str_lower s = map lower_char s"

definition str_upper :: "string \<Rightarrow> string" where
  "str_upper s = map upper_char s"

fun zip_members :: "blob \<Rightarrow> entry list option" where
  \<comment> \<open>The members a zip reader finds in a file. As the comment in
      \<open>generate_python_binary\<close> says, bytes in front of a zip archive leave it a valid zip
      file.\<close>
  "zip_members (ZipArchive es) = Some es"
| "zip_members (Prefixed script b) = zip_members b"
| "zip_members b = None"

definition zipfile_open :: "filesys \<Rightarrow> string \<Rightarrow> error + entry list" where
  \<comment> \<open>\<open>zipfile.ZipFile(path, 'r')\<close>\<close>
  "zipfile_open fs path =
     (case files fs path of
        None \<Rightarrow> Inl IOError
      | Some b \<Rightarrow> (case zip_members b of None \<Rightarrow> Inl BadZipfile | Some es \<Rightarrow> Inr es))"

definition namelist :: "entry list \<Rightarrow> string list" where
  "namelist es = map fst es"

definition zip_read :: "entry list \<Rightarrow> string \<Rightarrow> error + blob" where
  \<comment> \<open>\<open>ZipFile.read(name)\<close>: where a name occurs more than once, the archive's name table
      holds the member written last.\<close>
  "zip_read es name = (case map_of (rev es) name of None \<Rightarrow> Inl KeyError | Some b \<Rightarrow> Inr b)"

subsection \<open>The composer of Python binaries\<close>

text \<open>
  \<open>fnmatch.fnmatch\<close> and \<open>os.path.relpath\<close> belong to the Python library; the composer
  is modelled for any two such functions.
\<close>

record os_lib =
  fnmatch :: "string \<Rightarrow> string \<Rightarrow> bool"
  relpath :: "string \<Rightarrow> string \<Rightarrow> string"

fun is_python_excluded_path :: "os_lib \<Rightarrow> string \<Rightarrow> string list \<Rightarrow> bool" where
  "is_python_excluded_path L filename [] = False"
| "is_python_excluded_path L filename (exclusion # exclusions) =
     (if fnmatch L filename exclusion then True
      else is_python_excluded_path L filename exclusions)"

text \<open>
  The loop \<open>while dir: dirs.add(dir); dir = os.path.dirname(dir)\<close> does not end when
  \<open>dir\<close> is made of slashes only, since \<open>dirname('/') = '/'\<close>; \<open>None\<close> is the run that
  does not return.
\<close>

partial_function (option) add_parent_dirs :: "string \<Rightarrow> string set \<Rightarrow> string set option" where
  "add_parent_dirs dir dirs =
     (if dir \<noteq> [] then add_parent_dirs (dirname dir) (insert dir dirs) else Some dirs)"

declare add_parent_dirs.simps [code]

definition update_init_py_dirs ::
  "string \<Rightarrow> string set \<times> string set \<Rightarrow> (string set \<times> string set) option" where
  "update_init_py_dirs arcname st =
     (let (dirs, dirs_with_init_py) = st;
          dir = dirname arcname;
          dirs_with_init_py' =
            (if basename arcname = ''__init__.py'' then insert dir dirs_with_init_py
             else dirs_with_init_py)
      in case add_parent_dirs dir dirs of
           None \<Rightarrow> None
         | Some dirs' \<Rightarrow> Some (dirs', dirs_with_init_py'))"

text \<open>
  The state of a composition: the members written to the archive so far, \<open>dirs\<close> and
  \<open>dirs_with_init_py\<close>. A step gives \<open>None\<close> when it does not return, an error when it
  raises, the new state otherwise.
\<close>

type_synonym pybin_state = "entry list \<times> string set \<times> string set"

fun pybin_add_pylib_srcs ::
  "os_lib \<Rightarrow> filesys \<Rightarrow> string \<Rightarrow> string list \<Rightarrow> (string \<times> string) list \<Rightarrow> pybin_state \<Rightarrow>
   (error + pybin_state) option" where
  "pybin_add_pylib_srcs L fs pylib_base_dir exclusions [] st = Some (Inr st)"
| "pybin_add_pylib_srcs L fs pylib_base_dir exclusions ((libsrc, digest) # srcs)
     (es, dirs, dirs_with_init_py) =
     (let arcname = relpath L libsrc pylib_base_dir in
      if \<not> is_python_excluded_path L arcname exclusions then
        (case update_init_py_dirs arcname (dirs, dirs_with_init_py) of
           None \<Rightarrow> None
         | Some (dirs', dirs_with_init_py') \<Rightarrow>
             (case zip_write fs libsrc arcname es of
                Inl e \<Rightarrow> Some (Inl e)
              | Inr es' \<Rightarrow>
                  pybin_add_pylib_srcs L fs pylib_base_dir exclusions srcs
                    (es', dirs', dirs_with_init_py')))
      else pybin_add_pylib_srcs L fs pylib_base_dir exclusions srcs
             (es, dirs, dirs_with_init_py))"

definition pybin_add_pylib ::
  "os_lib \<Rightarrow> filesys \<Rightarrow> string \<Rightarrow> string list \<Rightarrow> pybin_state \<Rightarrow> (error + pybin_state) option" where
  "pybin_add_pylib L fs libname exclusions st =
     (case read_file fs libname of
        Inl e \<Rightarrow> Some (Inl e)
      | Inr (Descriptor pylib_base_dir srcs) \<Rightarrow>
          pybin_add_pylib_srcs L fs pylib_base_dir exclusions srcs st
      | Inr _ \<Rightarrow> Some (Inl EvalError))"

text \<open>
  In \<open>_pybin_add_zip\<close> the arguments \<open>dirs\<close> and \<open>dirs_with_init_py\<close> may be \<open>None\<close>; the
  bookkeeping is skipped unless both are sets.
\<close>

fun pybin_add_zip_names ::
  "os_lib \<Rightarrow> entry list \<Rightarrow> (string \<Rightarrow> bool) \<Rightarrow> string list \<Rightarrow> string list \<Rightarrow>
   entry list \<times> string set option \<times> string set option \<Rightarrow>
   (error + entry list \<times> string set option \<times> string set option) option" where
  "pybin_add_zip_names L lib filter_name exclusions [] st = Some (Inr st)"
| "pybin_add_zip_names L lib filter_name exclusions (name # names) (es, dirs, dirs_with_init_py) =
     (if filter_name name \<and> \<not> is_python_excluded_path L name exclusions then
        (case (case (dirs, dirs_with_init_py) of
                 (Some d, Some w) \<Rightarrow>
                   (case update_init_py_dirs name (d, w) of
                      None \<Rightarrow> None
                    | Some (d', w') \<Rightarrow> Some (Some d', Some w'))
               | _ \<Rightarrow> Some (dirs, dirs_with_init_py)) of
           None \<Rightarrow> None
         | Some (dirs', dirs_with_init_py') \<Rightarrow>
             (case zip_read lib name of
                Inl e \<Rightarrow> Some (Inl e)
              | Inr b \<Rightarrow>
                  pybin_add_zip_names L lib filter_name exclusions names
                    (writestr name b es, dirs', dirs_with_init_py')))
      else pybin_add_zip_names L lib filter_name exclusions names (es, dirs, dirs_with_init_py))"

definition pybin_add_zip ::
  "os_lib \<Rightarrow> filesys \<Rightarrow> string \<Rightarrow> (string \<Rightarrow> bool) \<Rightarrow> string list \<Rightarrow>
   entry list \<times> string set option \<times> string set option \<Rightarrow>
   (error + entry list \<times> string set option \<times> string set option) option" where
  "pybin_add_zip L fs libname filter_name exclusions st =
     (case zipfile_open fs libname of
        Inl e \<Rightarrow> Some (Inl e)
      | Inr lib \<Rightarrow> pybin_add_zip_names L lib filter_name exclusions (namelist lib) st)"

definition egg_filter :: "string \<Rightarrow> bool" where
  "egg_filter name =
     (if startswith name ''EGG-INFO'' then False
      else if endswith name ''.pyc'' then False
      else True)"

fun contains :: "string \<Rightarrow> string \<Rightarrow> bool" where
  \<comment> \<open>\<open>sub in s\<close>\<close>
  "contains sub [] = (sub = [])"
| "contains sub (c # cs) = (startswith (c # cs) sub \<or> contains sub cs)"

definition whl_filter :: "string \<Rightarrow> bool" where
  "whl_filter name = (if contains ''.dist-info/'' name then False else True)"

definition pybin_add_egg ::
  "os_lib \<Rightarrow> filesys \<Rightarrow> string \<Rightarrow> string list \<Rightarrow> pybin_state \<Rightarrow> (error + pybin_state) option" where
  \<comment> \<open>The egg adder is given the archive only; the two sets of the caller stay as they
      are.\<close>
  "pybin_add_egg L fs libname exclusions st =
     (let (es, dirs, dirs_with_init_py) = st in
      case pybin_add_zip L fs libname egg_filter exclusions (es, None, None) of
        None \<Rightarrow> None
      | Some (Inl e) \<Rightarrow> Some (Inl e)
      | Some (Inr (es', _, _)) \<Rightarrow> Some (Inr (es', dirs, dirs_with_init_py)))"

definition pybin_add_whl ::
  "os_lib \<Rightarrow> filesys \<Rightarrow> string \<Rightarrow> string list \<Rightarrow> pybin_state \<Rightarrow> (error + pybin_state) option" where
  "pybin_add_whl L fs libname exclusions st =
     (let (es, dirs, dirs_with_init_py) = st in
      case pybin_add_zip L fs libname whl_filter exclusions
             (es, Some dirs, Some dirs_with_init_py) of
        None \<Rightarrow> None
      | Some (Inl e) \<Rightarrow> Some (Inl e)
      | Some (Inr (es', Some dirs', Some dirs_with_init_py')) \<Rightarrow>
          Some (Inr (es', dirs', dirs_with_init_py'))
      | Some (Inr (es', _, _)) \<Rightarrow> Some (Inr (es', dirs, dirs_with_init_py)))"

definition pybin_add_arg ::
  "os_lib \<Rightarrow> filesys \<Rightarrow> string list \<Rightarrow> string \<Rightarrow> pybin_state \<Rightarrow> (error + pybin_state) option" where
  \<comment> \<open>The body of \<open>for arg in args\<close>.\<close>
  "pybin_add_arg L fs exclusions arg st =
     (if endswith arg ''.pylib'' then pybin_add_pylib L fs arg exclusions st
      else if endswith arg ''.egg'' then pybin_add_egg L fs arg exclusions st
      else if endswith arg ''.whl'' then pybin_add_whl L fs arg exclusions st
      else Some (Inl AssertionError))"

fun pybin_add_args ::
  "os_lib \<Rightarrow> filesys \<Rightarrow> string list \<Rightarrow> string list \<Rightarrow> pybin_state \<Rightarrow> (error + pybin_state) option" where
  "pybin_add_args L fs exclusions [] st = Some (Inr st)"
| "pybin_add_args L fs exclusions (arg # args) st =
     (case pybin_add_arg L fs exclusions arg st of
        None \<Rightarrow> None
      | Some (Inl e) \<Rightarrow> Some (Inl e)
      | Some (Inr st') \<Rightarrow> pybin_add_args L fs exclusions args st')"

definition init_py_markers :: "string set \<Rightarrow> string set \<Rightarrow> entry list" where
  \<comment> \<open>The members written after the loop: an empty \<open>__init__.py\<close> in each directory of
      \<open>dirs - dirs_with_init_py\<close>, in sorted order, and one at the root.\<close>
  "init_py_markers dirs dirs_with_init_py =
     map (\<lambda>dir. (path_join dir ''__init__.py'', Plain []))
         (sorted_list_of_set (dirs - dirs_with_init_py))
     @ [(''__init__.py'', Plain [])]"

definition mode_755 :: nat where
  \<comment> \<open>the octal number \<open>0o755\<close>\<close>
  "mode_755 = 7 * 64 + 5 * 8 + 5"

definition bootstrap :: "string \<Rightarrow> string" where
  "bootstrap mainentry =
     ''#!/bin/sh'' @ [nl, nl] @
     ''PYTHONPATH=\"$0:$PYTHONPATH\" exec python -m \"'' @ mainentry @ ''\" \"$@\"'' @ [nl]"

definition generate_python_binary ::
  "os_lib \<Rightarrow> filesys \<Rightarrow> string \<Rightarrow> string \<Rightarrow> string \<Rightarrow> string \<Rightarrow> string list \<Rightarrow>
   ((error + unit) \<times> filesys) option" where
  "generate_python_binary L fs pybin basedir exclusions mainentry args =
     (let fs1 = write_file fs pybin Unfinished;
          exclusions' = str_split CHR '','' exclusions
      in case pybin_add_args L fs1 exclusions' args ([], {}, {}) of
           None \<Rightarrow> None
         | Some (Inl e) \<Rightarrow> Some (Inl e, fs1)
         | Some (Inr (es, dirs, dirs_with_init_py)) \<Rightarrow>
             (let fs2 = write_file fs1 pybin
                          (ZipArchive (es @ init_py_markers dirs dirs_with_init_py))
              in case read_file fs2 pybin of
                   Inl e \<Rightarrow> Some (Inl e, fs2)
                 | Inr zip_content \<Rightarrow>
                     (let fs3 = write_file fs2 pybin (Prefixed (bootstrap mainentry) zip_content)
                      in Some (Inr (), chmod fs3 pybin mode_755))))"

subsection \<open>The composer of one-jar archives\<close>

text \<open>
  The state of the composition is the list of members written to the output and
  \<open>jar_path_set\<close>, the names claimed so far.
\<close>

fun copy_boot_names ::
  "entry list \<Rightarrow> string list \<Rightarrow> entry list \<times> string set \<Rightarrow> error + entry list \<times> string set" where
  "copy_boot_names zip_file [] st = Inr st"
| "copy_boot_names zip_file (name # name_list) (es, jar_path_set) =
     (if \<not> endswith (str_lower name) ''manifest.mf'' then
        (case zip_read zip_file name of
           Inl e \<Rightarrow> Inl e
         | Inr b \<Rightarrow>
             copy_boot_names zip_file name_list (writestr name b es, insert name jar_path_set))
      else copy_boot_names zip_file name_list (es, jar_path_set))"

fun write_deps :: "filesys \<Rightarrow> string list \<Rightarrow> entry list \<Rightarrow> error + entry list" where
  "write_deps fs [] es = Inr es"
| "write_deps fs (dep # jars) es =
     (let dep_name = basename dep in
      case zip_write fs dep (path_join ''lib'' dep_name) es of
        Inl e \<Rightarrow> Inl e
      | Inr es' \<Rightarrow> write_deps fs jars es')"

fun copy_resource_names ::
  "entry list \<Rightarrow> string list \<Rightarrow> entry list \<times> string set \<Rightarrow> error + entry list \<times> string set" where
  "copy_resource_names jar [] st = Inr st"
| "copy_resource_names jar (name # jar_name_list) (es, jar_path_set) =
     (if endswith name ''.class'' \<or> startswith (str_upper name) ''META-INF'' then
        copy_resource_names jar jar_name_list (es, jar_path_set)
      else if name \<notin> jar_path_set then
        (case zip_read jar name of
           Inl e \<Rightarrow> Inl e
         | Inr b \<Rightarrow>
             copy_resource_names jar jar_name_list (writestr name b es, insert name jar_path_set))
      else copy_resource_names jar jar_name_list (es, jar_path_set))"

fun copy_resources ::
  "filesys \<Rightarrow> string list \<Rightarrow> entry list \<times> string set \<Rightarrow> error + entry list \<times> string set" where
  "copy_resources fs [] st = Inr st"
| "copy_resources fs (jar # jars) st =
     (case zipfile_open fs jar of
        Inl e \<Rightarrow> Inl e
      | Inr j \<Rightarrow>
          (case copy_resource_names j (namelist j) st of
             Inl e \<Rightarrow> Inl e
           | Inr st' \<Rightarrow> copy_resources fs jars st'))"

definition one_jar_manifest :: "string \<Rightarrow> string" where
  "one_jar_manifest main_class =
     ''Manifest-Version: 1.0'' @ [nl] @
     ''Main-Class: com.simontuffs.onejar.Boot'' @ [nl] @
     ''One-Jar-Main-Class: '' @ main_class @ [nl, nl]"

definition generate_one_jar ::
  "filesys \<Rightarrow> string \<Rightarrow> string \<Rightarrow> string \<Rightarrow> string list \<Rightarrow> (error + unit) \<times> filesys" where
  "generate_one_jar fs onejar main_class bootjar args =
     (case args of
        [] \<Rightarrow> (Inl IndexError, fs)
      | main_jar # jars \<Rightarrow>
          (let fs1 = write_file fs onejar Unfinished in
           case zipfile_open fs1 bootjar of
             Inl e \<Rightarrow> (Inl e, fs1)
           | Inr zip_file \<Rightarrow>
           (case copy_boot_names zip_file (namelist zip_file) ([], {}) of
             Inl e \<Rightarrow> (Inl e, fs1)
           | Inr (es1, jar_path_set) \<Rightarrow>
           (case zip_write fs1 main_jar (path_join ''main'' (basename main_jar)) es1 of
             Inl e \<Rightarrow> (Inl e, fs1)
           | Inr es2 \<Rightarrow>
           (case write_deps fs1 jars es2 of
             Inl e \<Rightarrow> (Inl e, fs1)
           | Inr es3 \<Rightarrow>
           (case copy_resources fs1 (main_jar # jars) (es3, jar_path_set) of
             Inl e \<Rightarrow> (Inl e, fs1)
           | Inr (es4, jar_path_set') \<Rightarrow>
               (Inr (),
                write_file fs1 onejar
                  (ZipArchive
                     (writestr (path_join ''META-INF'' ''MANIFEST.MF'')
                        (Plain (one_jar_manifest main_class)) es4)))))))))"

text \<open>What the claims about the composed archives speak of.\<close>

definition members_named :: "string \<Rightarrow> entry list \<Rightarrow> entry list" where
  \<comment> \<open>the members of an archive that carry a given name, in the order written\<close>
  "members_named x es = filter (\<lambda>e. fst e = x) es"

definition is_resource_name :: "string \<Rightarrow> bool" where
  \<comment> \<open>a name that the one-jar composer copies flattened: not a class, not under the
      metadata directory\<close>
  "is_resource_name name =
     (\<not> (endswith name ''.class'' \<or> startswith (str_upper name) ''META-INF''))"

definition boot_claims :: "entry list \<Rightarrow> string \<Rightarrow> bool" where
  \<comment> \<open>the loader archive contributes the name: it has a member of it that is not its
      manifest\<close>
  "boot_claims boot x = (x \<in> set (namelist boot) \<and> \<not> endswith (str_lower x) ''manifest.mf'')"

definition nested_names :: "string \<Rightarrow> string list \<Rightarrow> string list" where
  \<comment> \<open>the names under which the main archive and the dependencies are stored whole\<close>
  "nested_names main_jar jars =
     stored_name (path_join ''main'' (basename main_jar))
     # map (\<lambda>dep. stored_name (path_join ''lib'' (basename dep))) jars"

fun first_with_name :: "filesys \<Rightarrow> string \<Rightarrow> string list \<Rightarrow> blob option" where
  \<comment> \<open>the content that the first archive of the list holding the name gives for it\<close>
  "first_with_name fs x [] = None"
| "first_with_name fs x (jar # jars) =
     (case zipfile_open fs jar of
        Inl e \<Rightarrow> first_with_name fs x jars
      | Inr j \<Rightarrow>
          (case map_of (rev j) x of
             Some b \<Rightarrow> Some b
           | None \<Rightarrow> first_with_name fs x jars))"

definition example_jars :: filesys where
  \<comment> \<open>The archives of the worked example: the main archive and a dependency both hold
      \<open>config.properties\<close>.\<close>
  "example_jars =
     \<lparr>files =
        [''boot.jar'' \<mapsto> ZipArchive
           [(''META-INF/MANIFEST.MF'', Plain ''Main-Class: Boot''),
            (''com/simontuffs/onejar/Boot.class'', Plain ''boot class''),
            (''doc/one-jar-license.txt'', Plain ''license'')],
         ''main.jar'' \<mapsto> ZipArchive
           [(''META-INF/MANIFEST.MF'', Plain ''Created-By: blade''),
            (''app/Main.class'', Plain ''main class''),
            (''config.properties'', Plain ''from main'')],
         ''dep.jar'' \<mapsto> ZipArchive
           [(''config.properties'', Plain ''from dep''),
            (''dep.properties'', Plain ''only in dep'')]],
      modes = Map.empty\<rparr>"

subsection \<open>What the claims about Python binaries speak of\<close>

definition absolute :: "string \<Rightarrow> bool" where
  "absolute p = startswith p ''/''"

fun parent_chain :: "nat \<Rightarrow> string \<Rightarrow> string list" where
  "parent_chain 0 dir = []"
| "parent_chain (Suc n) dir = (if dir = [] then [] else dir # parent_chain n (dirname dir))"

definition parent_dirs :: "string \<Rightarrow> string list" where
  \<comment> \<open>the directory of a path, the directory of that directory, and so on while the
      result is not empty\<close>
  "parent_dirs arcname = parent_chain (length arcname) (dirname arcname)"

definition pylib_arcnames ::
  "os_lib \<Rightarrow> string list \<Rightarrow> string \<Rightarrow> (string \<times> string) list \<Rightarrow> string list" where
  \<comment> \<open>the names that a library descriptor gives to its sources: the path of each source
      that is not excluded, relative to the descriptor's base directory\<close>
  "pylib_arcnames L exclusions base srcs =
     filter (\<lambda>arcname. \<not> is_python_excluded_path L arcname exclusions)
       (map (\<lambda>(libsrc, digest). relpath L libsrc base) srcs)"

definition pylib_entries ::
  "os_lib \<Rightarrow> filesys \<Rightarrow> string list \<Rightarrow> string \<Rightarrow> (string \<times> string) list \<Rightarrow> entry list" where
  \<comment> \<open>what a library descriptor contributes: each source that is not excluded, under the
      name that the zip library makes of its path relative to the descriptor's base
      directory\<close>
  "pylib_entries L fs exclusions base srcs =
     map (\<lambda>(libsrc, digest). (stored_name (relpath L libsrc base), the (files fs libsrc)))
       (filter (\<lambda>(libsrc, digest). \<not> is_python_excluded_path L (relpath L libsrc base) exclusions)
          srcs)"

definition zip_entries ::
  "os_lib \<Rightarrow> (string \<Rightarrow> bool) \<Rightarrow> string list \<Rightarrow> entry list \<Rightarrow> entry list" where
  \<comment> \<open>what an egg or a wheel contributes: each name that passes the filter of the format
      and is not excluded, with the content the archive gives for the name\<close>
  "zip_entries L filter_name exclusions lib =
     map (\<lambda>name. (name, the (map_of (rev lib) name)))
       (filter (\<lambda>name. filter_name name \<and> \<not> is_python_excluded_path L name exclusions)
          (namelist lib))"

definition source_entries :: "os_lib \<Rightarrow> filesys \<Rightarrow> string list \<Rightarrow> string \<Rightarrow> entry list" where
  "source_entries L fs exclusions arg =
     (if endswith arg ''.pylib'' then
        (case files fs arg of
           Some (Descriptor base srcs) \<Rightarrow> pylib_entries L fs exclusions base srcs
         | _ \<Rightarrow> [])
      else if endswith arg ''.egg'' then
        (case zipfile_open fs arg of
           Inr lib \<Rightarrow> zip_entries L egg_filter exclusions lib
         | Inl e \<Rightarrow> [])
      else if endswith arg ''.whl'' then
        (case zipfile_open fs arg of
           Inr lib \<Rightarrow> zip_entries L whl_filter exclusions lib
         | Inl e \<Rightarrow> [])
      else [])"

definition recognized :: "string \<Rightarrow> bool" where
  "recognized arg = (endswith arg ''.pylib'' \<or> endswith arg ''.egg'' \<or> endswith arg ''.whl'')"

definition is_egg :: "string \<Rightarrow> bool" where
  \<comment> \<open>the argument is handled by the egg adder\<close>
  "is_egg arg = (\<not> endswith arg ''.pylib'' \<and> endswith arg ''.egg'')"

definition source_arcnames :: "os_lib \<Rightarrow> filesys \<Rightarrow> string list \<Rightarrow> string \<Rightarrow> string list" where
  \<comment> \<open>the names that the composer has in hand for the entries of a source: the relative
      paths for a library descriptor, the member names for an egg or a wheel\<close>
  "source_arcnames L fs exclusions arg =
     (if endswith arg ''.pylib'' then
        (case files fs arg of
           Some (Descriptor base srcs) \<Rightarrow> pylib_arcnames L exclusions base srcs
         | _ \<Rightarrow> [])
      else map fst (source_entries L fs exclusions arg))"

definition tracked_names :: "os_lib \<Rightarrow> filesys \<Rightarrow> string list \<Rightarrow> string list \<Rightarrow> string list" where
  \<comment> \<open>the names of the entries of library descriptors and wheels, which the bookkeeping
      of directories is given\<close>
  "tracked_names L fs exclusions args =
     concat (map (\<lambda>arg. if is_egg arg then [] else source_arcnames L fs exclusions arg) args)"

definition stored_as_named :: "os_lib \<Rightarrow> filesys \<Rightarrow> string list \<Rightarrow> string \<Rightarrow> bool" where
  \<comment> \<open>the zip library stores the entries of a library descriptor under the very names the
      descriptor gives them; so it is for the results of \<open>os.path.relpath\<close>, which are
      normalised relative paths\<close>
  "stored_as_named L fs exclusions arg =
     (if endswith arg ''.pylib''
      then list_all (\<lambda>arcname. zip_arcname arcname = Inr arcname)
             (source_arcnames L fs exclusions arg)
      else True)"

definition recorded_dirs :: "string list \<Rightarrow> string set" where
  "recorded_dirs names = (\<Union>name \<in> set names. set (parent_dirs name))"

definition dirs_having_init_py :: "string list \<Rightarrow> string set" where
  "dirs_having_init_py names =
     dirname ` {name \<in> set names. basename name = ''__init__.py''}"

definition is_marker_of :: "string \<Rightarrow> entry \<Rightarrow> bool" where
  \<comment> \<open>the member is an \<open>__init__.py\<close> lying in the directory\<close>
  "is_marker_of dir e = (dirname (fst e) = dir \<and> basename (fst e) = ''__init__.py'')"

definition pybin_output ::
  "((error + unit) \<times> filesys) option \<Rightarrow> string \<Rightarrow> blob option" where
  \<comment> \<open>the file that a run which returned without error left at a path\<close>
  "pybin_output run path =
     (case run of Some (Inr u, fs') \<Rightarrow> files fs' path | _ \<Rightarrow> None)"

definition pybin_mode ::
  "((error + unit) \<times> filesys) option \<Rightarrow> string \<Rightarrow> nat option" where
  \<comment> \<open>the permission bits that a run which returned without error set on a path\<close>
  "pybin_mode run path =
     (case run of Some (Inr u, fs') \<Rightarrow> modes fs' path | _ \<Rightarrow> None)"

definition returns_ok :: "((error + unit) \<times> filesys) option \<Rightarrow> bool" where
  \<comment> \<open>the run returned, and without error\<close>
  "returns_ok run = (case run of Some (Inr u, fs') \<Rightarrow> True | _ \<Rightarrow> False)"

definition contributed :: "os_lib \<Rightarrow> filesys \<Rightarrow> string \<Rightarrow> string \<Rightarrow> string list \<Rightarrow> entry list" where
  \<comment> \<open>the entries of all sources in the order of the arguments, as they are read while the
      output is open for writing\<close>
  "contributed L fs pybin exclusions args =
     concat (map (source_entries L (write_file fs pybin Unfinished)
                    (str_split CHR '','' exclusions)) args)"

definition tracked :: "os_lib \<Rightarrow> filesys \<Rightarrow> string \<Rightarrow> string \<Rightarrow> string list \<Rightarrow> string list" where
  \<comment> \<open>the names among them that come from library descriptors and wheels\<close>
  "tracked L fs pybin exclusions args =
     tracked_names L (write_file fs pybin Unfinished) (str_split CHR '','' exclusions) args"

definition names_kept :: "os_lib \<Rightarrow> filesys \<Rightarrow> string \<Rightarrow> string \<Rightarrow> string list \<Rightarrow> bool" where
  \<comment> \<open>every library descriptor among the arguments has its entries stored as named\<close>
  "names_kept L fs pybin exclusions args =
     list_all (stored_as_named L (write_file fs pybin Unfinished) (str_split CHR '','' exclusions))
       args"

definition source_ok :: "os_lib \<Rightarrow> filesys \<Rightarrow> string list \<Rightarrow> string \<Rightarrow> bool" where
  \<comment> \<open>a source that the composer can add: a readable descriptor whose sources that are not
      excluded are readable files with relative names, an archive that opens, and for a
      wheel, entry names that are relative\<close>
  "source_ok L fs exclusions arg =
     (if endswith arg ''.pylib'' then
        (case files fs arg of
           Some (Descriptor base srcs) \<Rightarrow>
             list_all (\<lambda>(libsrc, digest).
                 is_python_excluded_path L (relpath L libsrc base) exclusions
                 \<or> (\<not> absolute (relpath L libsrc base) \<and> files fs libsrc \<noteq> None)) srcs
         | _ \<Rightarrow> False)
      else if endswith arg ''.egg'' then
        (case zipfile_open fs arg of Inr lib \<Rightarrow> True | Inl e \<Rightarrow> False)
      else if endswith arg ''.whl'' then
        (case zipfile_open fs arg of
           Inr lib \<Rightarrow> list_all (\<lambda>name. \<not> absolute name)
                        (map fst (zip_entries L whl_filter exclusions lib))
         | Inl e \<Rightarrow> False)
      else False)"

definition sources_ok :: "os_lib \<Rightarrow> filesys \<Rightarrow> string \<Rightarrow> string \<Rightarrow> string list \<Rightarrow> bool" where
  \<comment> \<open>every argument is such a source, as the files are while the output is open for
      writing\<close>
  "sources_ok L fs pybin exclusions args =
     list_all (source_ok L (write_file fs pybin Unfinished) (str_split CHR '','' exclusions)) args"

text \<open>
  The prologue is read by the shell. Of the shell's reading of a text the claims use this
  much: the text is cut into commands at the newlines and a command into words at the
  blanks; a \<open>#\<close> that begins a word starts a comment that runs to the end of the line;
  double quotes, single quotes and the backslash quote what follows them, and a quote
  that is never closed leaves the text incomplete, which is \<open>None\<close>. A word is given
  after the removal of the quotes, with the mark whether it is taken as it is written: a
  \<open>$\<close> or a backquote that is not quoted asks the shell for a substitution, which is
  marked and not carried out. The operators of the shell are not told apart from other
  characters; the prologue has none outside its quotes.
\<close>

datatype sh_mode = Unquoted | DoubleQuoted | SingleQuoted | Comment

type_synonym sh_word = "string \<times> bool"

definition sh_push :: "char \<Rightarrow> sh_word option \<Rightarrow> sh_word option" where
  "sh_push c cur =
     (case cur of None \<Rightarrow> Some ([c], True) | Some (w, plain) \<Rightarrow> Some (w @ [c], plain))"

definition sh_substitute :: "char \<Rightarrow> sh_word option \<Rightarrow> sh_word option" where
  "sh_substitute c cur =
     (case cur of None \<Rightarrow> Some ([c], False) | Some (w, plain) \<Rightarrow> Some (w @ [c], False))"

definition sh_open :: "sh_word option \<Rightarrow> sh_word option" where
  "sh_open cur = (case cur of None \<Rightarrow> Some ([], True) | Some w \<Rightarrow> Some w)"

definition sh_end_word :: "sh_word option \<Rightarrow> sh_word list \<Rightarrow> sh_word list" where
  "sh_end_word cur cmd = (case cur of None \<Rightarrow> cmd | Some w \<Rightarrow> cmd @ [w])"

definition sh_end_command :: "sh_word list \<Rightarrow> sh_word list list \<Rightarrow> sh_word list list" where
  "sh_end_command cmd cmds = (if cmd = [] then cmds else cmd # cmds)"

fun sh_parse ::
  "sh_mode \<Rightarrow> sh_word option \<Rightarrow> sh_word list \<Rightarrow> string \<Rightarrow> sh_word list list option" where
  "sh_parse Unquoted cur cmd [] = Some (sh_end_command (sh_end_word cur cmd) [])"
| "sh_parse Comment cur cmd [] = Some (sh_end_command cmd [])"
| "sh_parse DoubleQuoted cur cmd [] = None"
| "sh_parse SingleQuoted cur cmd [] = None"
| "sh_parse Comment cur cmd (c # cs) =
     (if c = nl then map_option (sh_end_command cmd) (sh_parse Unquoted None [] cs)
      else sh_parse Comment cur cmd cs)"
| "sh_parse SingleQuoted cur cmd (c # cs) =
     (if c = CHR 0x27 then sh_parse Unquoted cur cmd cs
      else sh_parse SingleQuoted (sh_push c cur) cmd cs)"
| "sh_parse DoubleQuoted cur cmd (c # cs) =
     (if c = CHR 0x22 then sh_parse Unquoted cur cmd cs
      else if c = CHR 0x5C then
        (case cs of
           [] \<Rightarrow> None
         | d # ds \<Rightarrow>
             if d = CHR 0x24 \<or> d = CHR 0x60 \<or> d = CHR 0x22 \<or> d = CHR 0x5C
             then sh_parse DoubleQuoted (sh_push d cur) cmd ds
             else if d = nl then sh_parse DoubleQuoted cur cmd ds
             else sh_parse DoubleQuoted (sh_push d (sh_push c cur)) cmd ds)
      else if c = CHR 0x24 \<or> c = CHR 0x60 then sh_parse DoubleQuoted (sh_substitute c cur) cmd cs
      else sh_parse DoubleQuoted (sh_push c cur) cmd cs)"
| "sh_parse Unquoted cur cmd (c # cs) =
     (if c = nl
      then map_option (sh_end_command (sh_end_word cur cmd)) (sh_parse Unquoted None [] cs)
      else if c = CHR 0x20 \<or> c = CHR 0x09 then sh_parse Unquoted None (sh_end_word cur cmd) cs
      else if c = CHR 0x23 \<and> cur = None then sh_parse Comment None cmd cs
      else if c = CHR 0x22 then sh_parse DoubleQuoted (sh_open cur) cmd cs
      else if c = CHR 0x27 then sh_parse SingleQuoted (sh_open cur) cmd cs
      else if c = CHR 0x5C then
        (case cs of
           [] \<Rightarrow> Some (sh_end_command (sh_end_word (sh_push c cur) cmd) [])
         | d # ds \<Rightarrow>
             if d = nl then sh_parse Unquoted cur cmd ds
             else sh_parse Unquoted (sh_push d cur) cmd ds)
      else if c = CHR 0x24 \<or> c = CHR 0x60 then sh_parse Unquoted (sh_substitute c cur) cmd cs
      else sh_parse Unquoted (sh_push c cur) cmd cs)"

definition sh_script :: "string \<Rightarrow> sh_word list list option" where
  \<comment> \<open>the commands of a script, each the list of its words\<close>
  "sh_script s = sh_parse Unquoted None [] s"

definition shell_plain :: "string \<Rightarrow> bool" where
  \<comment> \<open>a text that stands for itself between double quotes: it has no double quote, no
      backslash, no \<open>$\<close> and no backquote\<close>
  "shell_plain s =
     list_all (\<lambda>c. c \<noteq> CHR 0x22 \<and> c \<noteq> CHR 0x5C \<and> c \<noteq> CHR 0x24 \<and> c \<noteq> CHR 0x60) s"

definition prologue :: "blob \<Rightarrow> string" where
  \<comment> \<open>the text that precedes the archive in a file\<close>
  "prologue b = (case b of Prefixed s z \<Rightarrow> s | _ \<Rightarrow> [])"

fun glob_match :: "string \<Rightarrow> string \<Rightarrow> bool" where
  "glob_match [] [] = True"
| "glob_match [] (c # cs) = False"
| "glob_match (p # ps) [] = (p = CHR ''*'' \<and> glob_match ps [])"
| "glob_match (p # ps) (c # cs) =
     (if p = CHR ''*'' then glob_match ps (c # cs) \<or> glob_match (p # ps) cs
      else (p = CHR ''?'' \<or> p = c) \<and> glob_match ps cs)"

definition example_lib :: os_lib where
  \<comment> \<open>Library functions for the worked examples. They agree with \<open>fnmatch.fnmatch\<close> on
      patterns without bracket expressions (\<open>*\<close> stands for any characters, \<open>?\<close> for one)
      and with \<open>os.path.relpath\<close> on a clean path below the start directory. The theorems
      hold for every pair of functions.\<close>
  "example_lib =
     \<lparr>fnmatch = (\<lambda>name pat. glob_match pat name),
      relpath = (\<lambda>path start.
         if startswith path (start @ ''/'') then drop (length start + 1) path else path)\<rparr>"

definition example_py :: filesys where
  "example_py =
     \<lparr>files =
        [''a.pylib'' \<mapsto> Descriptor ''src''
           [(''src/pkg/mod.py'', ''d1''), (''src/pkg/sub/util.py'', ''d2'')],
         ''b.pylib'' \<mapsto> Descriptor ''other'' [(''other/pkg/mod.py'', ''d3'')],
         ''src/pkg/mod.py'' \<mapsto> Plain ''mod of a'',
         ''src/pkg/sub/util.py'' \<mapsto> Plain ''util'',
         ''other/pkg/mod.py'' \<mapsto> Plain ''mod of b'',
         ''c.egg'' \<mapsto> ZipArchive
           [(''EGG-INFO/PKG-INFO'', Plain ''egg info''),
            (''eggpkg/e.py'', Plain ''e''),
            (''eggpkg/e.pyc'', Plain ''compiled'')],
         ''d.whl'' \<mapsto> ZipArchive
           [(''w/__init__.py'', Plain ''init of w''),
            (''w/x.py'', Plain ''x''),
            (''w-1.0.dist-info/METADATA'', Plain ''meta'')],
         ''notes.txt'' \<mapsto> Plain ''notes''],
      modes = Map.empty\<rparr>"

subsection \<open>Properties of \<open>parse_command_line\<close>\<close>

lemma startswith_dashes_iff: "startswith a ''--'' \<longleftrightarrow> (\<exists>r. a = ''--'' @ r)"
proof
  assume "startswith a ''--''"
  then have "take (length ''--'') a = ''--''" by (simp only: startswith_def)
  then have "a = ''--'' @ drop (length ''--'') a" by (metis append_take_drop_id)
  then show "\<exists>r. a = ''--'' @ r" ..
next
  assume "\<exists>r. a = ''--'' @ r"
  then show "startswith a ''--''" by (auto simp: startswith_def)
qed

lemma parse_arg_option:
  assumes "is_option_arg a"
  shows "parse_arg (opts, args) a = (opts(option_name a \<mapsto> option_value a), args)"
proof -
  from assms obtain r where a: "a = ''--'' @ r" and eq: "CHR ''='' \<in> set r"
    by (auto simp: is_option_arg_def startswith_dashes_iff)
  have tw: "takeWhile (\<lambda>x. x \<noteq> CHR ''='') a = ''--'' @ takeWhile (\<lambda>x. x \<noteq> CHR ''='') r"
    by (simp add: a)
  have dw: "dropWhile (\<lambda>x. x \<noteq> CHR ''='') a = dropWhile (\<lambda>x. x \<noteq> CHR ''='') r"
    by (simp add: a)
  let ?k = "length (takeWhile (\<lambda>x. x \<noteq> CHR ''='') r)"
  have pos: "str_find a CHR ''='' = int (?k + 2)"
    using eq by (simp add: str_find_def a)
  have r: "r = takeWhile (\<lambda>x. x \<noteq> CHR ''='') r @ dropWhile (\<lambda>x. x \<noteq> CHR ''='') r"
    by simp
  have dne: "dropWhile (\<lambda>x. x \<noteq> CHR ''='') r \<noteq> []"
    using eq by simp
  have name: "slice a 2 (int (?k + 2)) = option_name a"
  proof -
    have "take ?k r = takeWhile (\<lambda>x. x \<noteq> CHR ''='') r"
      by (metis r append_eq_conv_conj)
    moreover have "nat (int (?k + 2)) = Suc (Suc ?k)" by simp
    moreover have "nat 2 = Suc (Suc 0)" by simp
    moreover have "drop 2 a = r" by (simp add: a)
    ultimately show ?thesis
      unfolding slice_def option_name_def by (simp add: a)
  qed
  have val: "slice_from a (int (?k + 2) + 1) = option_value a"
  proof -
    have "drop ?k r = dropWhile (\<lambda>x. x \<noteq> CHR ''='') r"
      by (metis r append_eq_conv_conj)
    then have "drop (Suc ?k) r = tl (dropWhile (\<lambda>x. x \<noteq> CHR ''='') r)"
      by (metis drop_Suc tl_drop)
    moreover have "nat (int (?k + 2) + 1) = Suc (Suc (Suc ?k))" by simp
    ultimately show ?thesis
      unfolding slice_from_def option_value_def dw by (simp add: a)
  qed
  have sw: "startswith a ''--''"
    by (simp add: a startswith_def)
  show ?thesis
    using name val sw by (simp add: parse_arg_def pos Let_def)
qed

lemma parse_arg_positional:
  assumes "\<not> is_option_arg a"
  shows "parse_arg (opts, args) a = (opts, args @ [a])"
  using assms by (auto simp: parse_arg_def is_option_arg_def str_find_def Let_def)

lemma foldl_parse_arg_args:
  "snd (foldl parse_arg (opts, args) argv) = args @ filter (\<lambda>a. \<not> is_option_arg a) argv"
proof (induction argv arbitrary: opts args)
  case Nil
  show ?case by simp
next
  case (Cons a argv)
  show ?case
  proof (cases "is_option_arg a")
    case True
    then show ?thesis by (simp add: parse_arg_option Cons.IH)
  next
    case False
    then show ?thesis by (simp add: parse_arg_positional Cons.IH)
  qed
qed

lemma foldl_parse_arg_keeps:
  assumes "\<forall>a \<in> set argv. is_option_arg a \<longrightarrow> option_name a \<noteq> n"
  shows "fst (foldl parse_arg (opts, args) argv) n = opts n"
  using assms
proof (induction argv arbitrary: opts args)
  case Nil
  show ?case by simp
next
  case (Cons a argv)
  show ?case
  proof (cases "is_option_arg a")
    case True
    with Cons.prems have "option_name a \<noteq> n" by simp
    with True Cons show ?thesis by (simp add: parse_arg_option)
  next
    case False
    with Cons show ?thesis by (simp add: parse_arg_positional)
  qed
qed

lemma option_arg_form:
  assumes "CHR ''='' \<notin> set name"
  shows "is_option_arg (''--'' @ name @ ''='' @ val)"
    and "option_name (''--'' @ name @ ''='' @ val) = name"
    and "option_value (''--'' @ name @ ''='' @ val) = val"
proof -
  show "is_option_arg (''--'' @ name @ ''='' @ val)"
    by (simp add: is_option_arg_def startswith_def)
  have "takeWhile (\<lambda>x. x \<noteq> CHR ''='') (name @ ''='' @ val) = name"
    using assms by (induction name) auto
  then show "option_name (''--'' @ name @ ''='' @ val) = name"
    by (simp add: option_name_def)
  have "dropWhile (\<lambda>x. x \<noteq> CHR ''='') (name @ ''='' @ val) = ''='' @ val"
    using assms by (induction name) auto
  then show "option_value (''--'' @ name @ ''='' @ val) = val"
    by (simp add: option_value_def)
qed

text \<open>
  C9. \<open>parse_command_line\<close> returns as positional arguments exactly the arguments that are
  not of the form \<open>--name=value\<close> (so also those that start with \<open>--\<close> and hold no
  \<open>=\<close>), in their order; an argument \<open>--name=value\<close>, split at its first \<open>=\<close>, maps
  \<open>name\<close> to \<open>value\<close> unless a later option of the same name replaces it, so the later value
  wins.
\<close>

theorem parse_command_line_classifies:
  "snd (parse_command_line argv) = filter (\<lambda>a. \<not> is_option_arg a) argv
   \<and> (CHR ''='' \<notin> set name
        \<and> (\<forall>a \<in> set ys. is_option_arg a \<longrightarrow> option_name a \<noteq> name)
      \<longrightarrow> fst (parse_command_line (xs @ [''--'' @ name @ ''='' @ val] @ ys)) name = Some val)
   \<and> (\<not> is_option_arg a \<longrightarrow>
        parse_command_line (xs @ [a]) =
          (fst (parse_command_line xs), snd (parse_command_line xs) @ [a]))"
proof (intro conjI impI)
  show "snd (parse_command_line argv) = filter (\<lambda>a. \<not> is_option_arg a) argv"
    by (simp add: parse_command_line_def foldl_parse_arg_args)
next
  assume h: "CHR ''='' \<notin> set name
        \<and> (\<forall>a \<in> set ys. is_option_arg a \<longrightarrow> option_name a \<noteq> name)"
  let ?a = "''--'' @ name @ ''='' @ val"
  obtain o1 a1 where s1: "foldl parse_arg (Map.empty, []) xs = (o1, a1)"
    by (cases "foldl parse_arg (Map.empty, []) xs")
  have step: "parse_arg (o1, a1) ?a = (o1(name \<mapsto> val), a1)"
    using option_arg_form [of name val] h by (simp add: parse_arg_option)
  have "fst (foldl parse_arg (o1(name \<mapsto> val), a1) ys) name = (o1(name \<mapsto> val)) name"
    using h by (intro foldl_parse_arg_keeps) simp
  moreover have "parse_command_line (xs @ [?a] @ ys)
      = foldl parse_arg (parse_arg (o1, a1) ?a) ys"
    unfolding parse_command_line_def foldl_append s1 by simp
  ultimately show "fst (parse_command_line (xs @ [?a] @ ys)) name = Some val"
    by (simp only: step fun_upd_same)
next
  assume "\<not> is_option_arg a"
  then show "parse_command_line (xs @ [a]) =
          (fst (parse_command_line xs), snd (parse_command_line xs) @ [a])"
    by (cases "foldl parse_arg (Map.empty, []) xs")
       (simp add: parse_command_line_def parse_arg_positional)
qed

theorem parse_command_line_classifies_witness:
  "parse_command_line [''--a=1'', ''x'', ''--flag'', ''--a=2=3'', ''-y=z''] =
     ([''a'' \<mapsto> ''2=3''], [''x'', ''--flag'', ''-y=z''])
   \<and> fst (parse_command_line ([''--a=1'', ''x''] @ [''--'' @ ''a'' @ ''='' @ ''2=3''] @ [''--flag''])) ''a''
       = Some ''2=3''
   \<and> parse_command_line ([''--a=1''] @ [''--flag'']) =
       (fst (parse_command_line [''--a=1'']), snd (parse_command_line [''--a=1'']) @ [''--flag''])"
proof -
  have e: "parse_command_line [''--a=1'', ''x'', ''--flag'', ''--a=2=3'', ''-y=z''] =
     ([''a'' \<mapsto> ''2=3''], [''x'', ''--flag'', ''-y=z''])"
    by (simp add: parse_command_line_def parse_arg_def startswith_def str_find_def
        slice_def slice_from_def Let_def)
  have h1: "CHR ''='' \<notin> set ''a''
        \<and> (\<forall>a \<in> set [''--flag'']. is_option_arg a \<longrightarrow> option_name a \<noteq> ''a'')"
    by (simp add: is_option_arg_def)
  have h2: "\<not> is_option_arg ''--flag''"
    by (simp add: is_option_arg_def)
  from parse_command_line_classifies
    [of "[]" "''a''" "[''--flag'']" "[''--a=1'', ''x'']" "''2=3''" "''--flag''"] h1 h2
  show ?thesis using e
    by (metis (no_types, lifting) parse_command_line_classifies h1 h2)
qed

subsection \<open>Properties of the package composer\<close>

lemma archive_loop_ok:
  assumes "\<forall>s \<in> set sources. files fs s \<noteq> None"
    and "i + length sources \<le> length destinations"
    and "\<forall>s \<in> set sources. \<forall>d \<in> set destinations. \<forall>es.
           package s d es = Inr (es @ [(nm d, the (files fs s))])"
  shows "archive_package_sources_loop md5 fs package i sources destinations (es, m) =
     Inr (es @ map2 (\<lambda>s d. (nm d, the (files fs s))) sources (drop i destinations),
          m @ map2 (\<lambda>s d. md5 (the (files fs s)) @ '' '' @ d) sources (drop i destinations))"
  using assms
proof (induction sources arbitrary: i es m)
  case Nil
  show ?case by simp
next
  case (Cons s sources)
  from Cons.prems have i: "i < length destinations" by simp
  from Cons.prems obtain b where b: "files fs s = Some b" by auto
  have d: "drop i destinations = destinations ! i # drop (Suc i) destinations"
    using i by (simp add: Cons_nth_drop_Suc)
  have IH: "archive_package_sources_loop md5 fs package (Suc i) sources destinations
      (es @ [(nm (destinations ! i), b)], m @ [md5 b @ '' '' @ destinations ! i]) =
     Inr ((es @ [(nm (destinations ! i), b)])
            @ map2 (\<lambda>s d. (nm d, the (files fs s))) sources (drop (Suc i) destinations),
          (m @ [md5 b @ '' '' @ destinations ! i])
            @ map2 (\<lambda>s d. md5 (the (files fs s)) @ '' '' @ d) sources (drop (Suc i) destinations))"
    using Cons.prems by (intro Cons.IH) auto
  have "destinations ! i \<in> set destinations"
    using i by simp
  with Cons.prems(3) have add: "package s (destinations ! i) es = Inr (es @ [(nm (destinations ! i), b)])"
    by (simp add: b)
  have dg: "md5sum_file md5 fs s = Inr (md5 b)"
    by (simp add: md5sum_file_def read_file_def b)
  show ?case
    using i IH by (simp add: add dg b d)
qed







lemma find_tar_suffix:
  "find (endswith path) (map fst TAR_WRITE_MODES) = Some suffix \<Longrightarrow>
   \<exists>mode. map_of TAR_WRITE_MODES suffix = Some mode"
  by (auto simp: TAR_WRITE_MODES_def split: if_splits)

lemma packaged_members_write_file:
  "path \<notin> set sources \<Longrightarrow>
   packaged_members (write_file fs path b) p sources destinations =
   packaged_members fs p sources destinations"
proof (induction sources arbitrary: destinations)
  case Nil
  show ?case by (simp add: packaged_members_def)
next
  case (Cons s sources)
  then show ?case
    by (cases destinations) (auto simp: packaged_members_def write_file_def)
qed

lemma digest_lines_packaged:
  "length sources = length destinations \<Longrightarrow>
   map2 (\<lambda>s d. md5 (the (files fs s)) @ '' '' @ d) sources destinations =
   digest_lines md5 (map snd (packaged_members fs path sources destinations)) destinations"
  by (induction sources destinations rule: list_induct2)
     (simp_all add: digest_lines_def packaged_members_def)

lemma zip_write_member:
  assumes "files fs s \<noteq> None" "endswith path ''.zip''" "storable path d"
  shows "zip_write fs s d es = Inr (es @ [(member_name path d, the (files fs s))])"
  using assms
  by (auto simp: zip_write_def read_file_def storable_def member_name_def stored_name_def
      split: sum.splits)

lemma zip_write_Inr:
  assumes "zip_write fs filename arcname es = Inr es'"
  shows "\<exists>b. read_file fs filename = Inr b
           \<and> zip_arcname arcname = Inr (stored_name arcname)
           \<and> es' = es @ [(stored_name arcname, b)]"
  using assms by (auto simp: zip_write_def stored_name_def split: sum.splits)

lemma tar_add_member:
  assumes "files fs s \<noteq> None" "\<not> endswith path ''.zip''" "s \<noteq> path"
  shows "tar_add fs path s d es = Inr (es @ [(member_name path d, the (files fs s))])"
  using assms
  by (auto simp: tar_add_def read_file_def member_name_def)

lemma archive_package_sources_ok:
  assumes "\<forall>s \<in> set sources. files fs s \<noteq> None"
    and "length sources = length destinations"
    and "\<forall>s \<in> set sources. \<forall>d \<in> set destinations. \<forall>es.
           package s d es = Inr (es @ [(member_name path d, the (files fs s))])"
  shows "archive_package_sources md5 fs package [] sources destinations =
     Inr (packaged_members fs path sources destinations,
          digest_lines md5 (map snd (packaged_members fs path sources destinations)) destinations)"
proof -
  have "archive_package_sources_loop md5 fs package 0 sources destinations ([], []) =
     Inr ([] @ map2 (\<lambda>s d. (member_name path d, the (files fs s))) sources (drop 0 destinations),
          [] @ map2 (\<lambda>s d. md5 (the (files fs s)) @ '' '' @ d) sources (drop 0 destinations))"
    using assms by (intro archive_loop_ok) auto
  then show ?thesis
    using digest_lines_packaged [OF assms(2), of md5 fs path]
    by (simp add: archive_package_sources_def packaged_members_def)
qed

lemma readable_write_file:
  "\<forall>s \<in> set sources. files fs s \<noteq> None \<Longrightarrow>
   \<forall>s \<in> set sources. files (write_file fs path b) s \<noteq> None"
  by (simp add: write_file_def)

lemma generate_zip_package_ok:
  assumes "\<forall>s \<in> set sources. files fs s \<noteq> None"
    and "length sources = length destinations"
    and "path \<notin> set sources"
    and "endswith path ''.zip''"
    and "\<forall>d \<in> set destinations. storable path d"
  shows "generate_zip_package md5 fs path sources destinations =
     (Inr (), write_file (write_file fs path Unfinished) path
        (ZipArchive (packaged_members fs path sources destinations @
           [(PACKAGE_MANIFEST,
             Plain (str_join [nl]
                      (digest_lines md5 (map snd (packaged_members fs path sources destinations))
                         destinations)
                    @ [nl]))])))"
proof -
  let ?fs1 = "write_file fs path Unfinished"
  have r: "\<forall>s \<in> set sources. files ?fs1 s \<noteq> None"
    using assms(1) by (rule readable_write_file)
  have "\<forall>s \<in> set sources. \<forall>d \<in> set destinations. \<forall>es.
      zip_write ?fs1 s d es = Inr (es @ [(member_name path d, the (files ?fs1 s))])"
    using r assms(4,5) by (auto intro: zip_write_member)
  with r assms(2)
  have "archive_package_sources md5 ?fs1 (zip_write ?fs1) [] sources destinations =
     Inr (packaged_members ?fs1 path sources destinations,
          digest_lines md5 (map snd (packaged_members ?fs1 path sources destinations)) destinations)"
    by (rule archive_package_sources_ok)
  then show ?thesis
    by (simp add: generate_zip_package_def Let_def writestr_def
        packaged_members_write_file [OF assms(3)])
qed

lemma generate_tar_package_ok:
  assumes "\<forall>s \<in> set sources. files fs s \<noteq> None"
    and "length sources = length destinations"
    and "path \<notin> set sources"
    and "map_of TAR_WRITE_MODES suffix = Some mode"
    and "\<not> endswith path ''.zip''"
  shows "generate_tar_package md5 fs path sources destinations suffix =
     (Inr (), write_file
        (write_file (write_file fs path Unfinished) (path @ ''.MANIFEST'')
           (Plain (str_join [nl]
                     (digest_lines md5 (map snd (packaged_members fs path sources destinations))
                        destinations)
                   @ [nl, nl])))
        path
        (TarArchive mode (packaged_members fs path sources destinations @
           [(PACKAGE_MANIFEST,
             Plain (str_join [nl]
                      (digest_lines md5 (map snd (packaged_members fs path sources destinations))
                         destinations)
                    @ [nl, nl]))])))"
proof -
  let ?fs1 = "write_file fs path Unfinished"
  have r: "\<forall>s \<in> set sources. files ?fs1 s \<noteq> None"
    using assms(1) by (rule readable_write_file)
  have "\<forall>s \<in> set sources. \<forall>d \<in> set destinations. \<forall>es.
      tar_add ?fs1 path s d es = Inr (es @ [(member_name path d, the (files ?fs1 s))])"
    using r assms(3,5) by (auto intro!: tar_add_member)
  with r assms(2)
  have "archive_package_sources md5 ?fs1 (tar_add ?fs1 path) [] sources destinations =
     Inr (packaged_members ?fs1 path sources destinations,
          digest_lines md5 (map snd (packaged_members ?fs1 path sources destinations)) destinations)"
    by (rule archive_package_sources_ok)
  moreover have "lstrip_slash PACKAGE_MANIFEST = PACKAGE_MANIFEST"
    by (simp add: lstrip_slash_def PACKAGE_MANIFEST_def)
  ultimately show ?thesis
    by (simp add: generate_tar_package_def Let_def assms(4) tar_add_def read_file_def
        write_file_def packaged_members_write_file [OF assms(3), unfolded write_file_def])
qed

lemma generate_package_split:
  assumes "length sources = length destinations"
  shows "generate_package md5 fs (path # sources @ destinations) =
     (if endswith path ''.zip'' then generate_zip_package md5 fs path sources destinations
      else case find (endswith path) (map fst TAR_WRITE_MODES) of
             None \<Rightarrow> (Inl UnboundLocalError, fs)
           | Some suffix \<Rightarrow> generate_tar_package md5 fs path sources destinations suffix)"
proof -
  have "length (sources @ destinations) div 2 = length sources"
    using assms by simp
  moreover have "length (sources @ destinations) mod 2 = 0"
    using assms by simp
  ultimately show ?thesis
    by (simp add: generate_package_def Let_def split: option.splits)
qed

lemma generate_package_ok:
  assumes len: "length sources = length destinations"
    and readable: "\<forall>s \<in> set sources. files fs s \<noteq> None"
    and notout: "path \<notin> set sources"
    and kind: "endswith path ''.zip'' \<or> find (endswith path) (map fst TAR_WRITE_MODES) \<noteq> None"
    and stor: "\<forall>d \<in> set destinations. storable path d"
  shows "\<exists>fs' out body.
     generate_package md5 fs (path # sources @ destinations) = (Inr (), fs')
     \<and> files fs' path = Some out
     \<and> archive_members out =
         packaged_members fs path sources destinations @ [(PACKAGE_MANIFEST, Plain body)]
     \<and> body = str_join [nl]
                (digest_lines md5 (map snd (packaged_members fs path sources destinations))
                   destinations)
                @ (if endswith path ''.zip'' then [nl] else [nl, nl])"
proof (cases "endswith path ''.zip''")
  case True
  show ?thesis
    using True generate_zip_package_ok [OF readable len notout True stor, of md5]
    by (simp add: generate_package_split [OF len] write_file_def)
next
  case False
  with kind obtain suffix where f: "find (endswith path) (map fst TAR_WRITE_MODES) = Some suffix"
    by auto
  then obtain mode where m: "map_of TAR_WRITE_MODES suffix = Some mode"
    using find_tar_suffix by blast
  show ?thesis
    using False generate_tar_package_ok [OF readable len notout m False, of md5]
    by (simp add: generate_package_split [OF len] f write_file_def)
qed


lemma member_name_examples:
  "member_name ''out.tar'' ''/x'' = ''x''
   \<and> member_name ''out.zip'' ''./x'' = ''x''
   \<and> member_name ''out.zip'' ''sub/../y'' = ''y''
   \<and> member_name ''out.zip'' ''/a//b/'' = ''a/b''
   \<and> zip_arcname ''/'' = Inl IndexError
   \<and> zip_arcname ''..//x'' = Inr ''../x''"
  by code_simp




text \<open>
  C7. With an odd number of arguments after the output path, \<open>generate_package\<close> fails its
  assertion and leaves the file system as it was: no archive is opened, no member is
  written. With \<open>n\<close> sources followed by \<open>n\<close> destinations, the first half are the sources
  and the second half the destinations of the package written, and member \<open>i\<close> of the
  archive is the content of source \<open>i\<close> under the name that the archive library makes of
  destination \<open>i\<close>.
\<close>

theorem generate_package_arguments:
  "(odd (length rest) \<longrightarrow> generate_package md5 fs (path # rest) = (Inl AssertionError, fs))
   \<and> (length sources = length destinations \<longrightarrow>
        generate_package md5 fs (path # sources @ destinations) =
          (if endswith path ''.zip'' then generate_zip_package md5 fs path sources destinations
           else case find (endswith path) (map fst TAR_WRITE_MODES) of
                  None \<Rightarrow> (Inl UnboundLocalError, fs)
                | Some suffix \<Rightarrow> generate_tar_package md5 fs path sources destinations suffix))
   \<and> (length sources = length destinations
        \<and> (\<forall>s \<in> set sources. files fs s \<noteq> None) \<and> path \<notin> set sources
        \<and> (endswith path ''.zip'' \<or> find (endswith path) (map fst TAR_WRITE_MODES) \<noteq> None)
        \<and> (\<forall>d \<in> set destinations. storable path d)
      \<longrightarrow> (\<exists>fs' out.
            generate_package md5 fs (path # sources @ destinations) = (Inr (), fs')
            \<and> files fs' path = Some out
            \<and> length (archive_members out) = Suc (length sources)
            \<and> (\<forall>i < length sources.
                  archive_members out ! i =
                    (member_name path (destinations ! i), the (files fs (sources ! i))))))"
proof (intro conjI impI)
  assume "odd (length rest)"
  then have "length rest mod 2 \<noteq> 0" by presburger
  then show "generate_package md5 fs (path # rest) = (Inl AssertionError, fs)"
    by (simp add: generate_package_def)
next
  assume "length sources = length destinations"
  then show "generate_package md5 fs (path # sources @ destinations) =
          (if endswith path ''.zip'' then generate_zip_package md5 fs path sources destinations
           else case find (endswith path) (map fst TAR_WRITE_MODES) of
                  None \<Rightarrow> (Inl UnboundLocalError, fs)
                | Some suffix \<Rightarrow> generate_tar_package md5 fs path sources destinations suffix)"
    by (rule generate_package_split)
next
  assume h: "length sources = length destinations
        \<and> (\<forall>s \<in> set sources. files fs s \<noteq> None) \<and> path \<notin> set sources
        \<and> (endswith path ''.zip'' \<or> find (endswith path) (map fst TAR_WRITE_MODES) \<noteq> None)
        \<and> (\<forall>d \<in> set destinations. storable path d)"
  then have len: "length sources = length destinations"
    and readable: "\<forall>s \<in> set sources. files fs s \<noteq> None"
    and notout: "path \<notin> set sources"
    and kind: "endswith path ''.zip'' \<or> find (endswith path) (map fst TAR_WRITE_MODES) \<noteq> None"
    and stor: "\<forall>d \<in> set destinations. storable path d"
    by simp_all
  from generate_package_ok [OF len readable notout kind stor, of md5]
  obtain fs' out body where
    run: "generate_package md5 fs (path # sources @ destinations) = (Inr (), fs')"
    and out: "files fs' path = Some out"
    and mem: "archive_members out =
        packaged_members fs path sources destinations @ [(PACKAGE_MANIFEST, Plain body)]"
    by blast
  have "\<forall>i < length sources.
      archive_members out ! i = (member_name path (destinations ! i), the (files fs (sources ! i)))"
    using len by (simp add: mem nth_append packaged_members_def)
  moreover have "length (archive_members out) = Suc (length sources)"
    using len by (simp add: mem packaged_members_def)
  ultimately show "\<exists>fs' out.
            generate_package md5 fs (path # sources @ destinations) = (Inr (), fs')
            \<and> files fs' path = Some out
            \<and> length (archive_members out) = Suc (length sources)
            \<and> (\<forall>i < length sources.
                  archive_members out ! i =
                    (member_name path (destinations ! i), the (files fs (sources ! i))))"
    using run out by blast
qed

theorem generate_package_arguments_witness:
  "odd (length [''a.txt'', ''b.txt'', ''x''])
   \<and> generate_package example_digest example_fs (''out.zip'' # [''a.txt'', ''b.txt'', ''x''])
       = (Inl AssertionError, example_fs)
   \<and> length [''a.txt'', ''b.txt''] = length [''./x'', ''sub/../y'']
   \<and> (\<exists>fs' out.
        generate_package example_digest example_fs
          (''out.zip'' # [''a.txt'', ''b.txt''] @ [''./x'', ''sub/../y'']) = (Inr (), fs')
        \<and> files fs' ''out.zip'' = Some out
        \<and> archive_members out ! 0 = (''x'', Plain ''alpha'')
        \<and> archive_members out ! 1 = (''y'', Plain ''beta''))"
proof -
  have h1: "odd (length [''a.txt'', ''b.txt'', ''x''])" by simp
  have z: "endswith ''out.zip'' ''.zip''"
    by (simp add: endswith_def)
  have s: "\<forall>d \<in> set [''./x'', ''sub/../y'']. storable ''out.zip'' d"
    by code_simp
  have h2: "length [''a.txt'', ''b.txt''] = length [''./x'', ''sub/../y'']
        \<and> (\<forall>s \<in> set [''a.txt'', ''b.txt'']. files example_fs s \<noteq> None)
        \<and> ''out.zip'' \<notin> set [''a.txt'', ''b.txt'']
        \<and> (endswith ''out.zip'' ''.zip''
            \<or> find (endswith ''out.zip'') (map fst TAR_WRITE_MODES) \<noteq> None)
        \<and> (\<forall>d \<in> set [''./x'', ''sub/../y'']. storable ''out.zip'' d)"
    using s z by (simp add: example_fs_def)
  have n1: "member_name ''out.zip'' ''./x'' = ''x''" by code_simp
  have n2: "member_name ''out.zip'' ''sub/../y'' = ''y''" by code_simp
  note t = generate_package_arguments [of "[''a.txt'', ''b.txt'', ''x'']" example_digest
      example_fs "''out.zip''" "[''a.txt'', ''b.txt'']" "[''./x'', ''sub/../y'']"]
  from t h1 have a: "generate_package example_digest example_fs
      (''out.zip'' # [''a.txt'', ''b.txt'', ''x'']) = (Inl AssertionError, example_fs)"
    by blast
  from t h2 obtain fs' out where
    b: "generate_package example_digest example_fs
          (''out.zip'' # [''a.txt'', ''b.txt''] @ [''./x'', ''sub/../y'']) = (Inr (), fs')"
      "files fs' ''out.zip'' = Some out"
      "\<forall>i < length [''a.txt'', ''b.txt''].
          archive_members out ! i =
            (member_name ''out.zip'' ([''./x'', ''sub/../y''] ! i),
             the (files example_fs ([''a.txt'', ''b.txt''] ! i)))"
    by blast
  from b(3) have "archive_members out ! 0 = (''x'', Plain ''alpha'')"
    and "archive_members out ! 1 = (''y'', Plain ''beta'')"
    using n1 n2 by (simp_all add: example_fs_def)
  with a b(1,2) h1 show ?thesis by simp
qed

subsection \<open>Properties of the one-jar composer\<close>

lemma zip_read_Inr: "zip_read j n = Inr b \<Longrightarrow> b = the (map_of (rev j) n)"
  by (auto simp: zip_read_def split: option.splits)

lemma members_named_append [simp]:
  "members_named x (es @ es') = members_named x es @ members_named x es'"
  by (simp add: members_named_def)

lemma copy_boot_names_result:
  "copy_boot_names zf names (es, S) = Inr (es', S') \<Longrightarrow>
   es' = es @ map (\<lambda>n. (n, the (map_of (rev zf) n)))
               (filter (\<lambda>n. \<not> endswith (str_lower n) ''manifest.mf'') names)
   \<and> S' = S \<union> {n \<in> set names. \<not> endswith (str_lower n) ''manifest.mf''}"
proof (induction names arbitrary: es S)
  case Nil
  then show ?case by simp
next
  case (Cons name names)
  show ?case
  proof (cases "endswith (str_lower name) ''manifest.mf''")
    case True
    with Cons.prems have "copy_boot_names zf names (es, S) = Inr (es', S')" by simp
    from Cons.IH [OF this] True show ?thesis by auto
  next
    case False
    with Cons.prems obtain b where b: "zip_read zf name = Inr b"
      and r: "copy_boot_names zf names (writestr name b es, insert name S) = Inr (es', S')"
      by (auto split: sum.splits)
    from Cons.IH [OF r] False zip_read_Inr [OF b] show ?thesis
      by (auto simp: writestr_def)
  qed
qed

lemma write_deps_result:
  "write_deps fs jars es = Inr es' \<Longrightarrow>
   \<exists>bs. length bs = length jars \<and>
     es' = es @ zip (map (\<lambda>dep. stored_name (path_join ''lib'' (basename dep))) jars) bs"
proof (induction jars arbitrary: es)
  case Nil
  then show ?case by simp
next
  case (Cons dep jars)
  from Cons.prems obtain es1 where a: "zip_write fs dep (path_join ''lib'' (basename dep)) es = Inr es1"
    and r: "write_deps fs jars es1 = Inr es'"
    by (auto simp: Let_def split: sum.splits)
  from zip_write_Inr [OF a] obtain b where
    es1: "es1 = es @ [(stored_name (path_join ''lib'' (basename dep)), b)]"
    by blast
  from Cons.IH [OF r] obtain bs where bs: "length bs = length jars"
    "es' = es1 @ zip (map (\<lambda>dep. stored_name (path_join ''lib'' (basename dep))) jars) bs"
    by blast
  show ?case
    using bs es1 by (intro exI [of _ "b # bs"]) simp
qed

lemma copy_resource_names_result:
  "copy_resource_names jar names (es, S) = Inr (es', S') \<Longrightarrow>
   members_named x es' =
     members_named x es @
       (if is_resource_name x \<and> x \<notin> S \<and> x \<in> set names
        then [(x, the (map_of (rev jar) x))] else [])
   \<and> S' = S \<union> {n \<in> set names. is_resource_name n}"
proof (induction names arbitrary: es S)
  case Nil
  then show ?case by simp
next
  case (Cons name names)
  show ?case
  proof (cases "is_resource_name name")
    case False
    with Cons.prems have "copy_resource_names jar names (es, S) = Inr (es', S')"
      by (simp add: is_resource_name_def)
    from Cons.IH [OF this] False show ?thesis by auto
  next
    case True
    show ?thesis
    proof (cases "name \<in> S")
      case inS: True
      with True Cons.prems have "copy_resource_names jar names (es, S) = Inr (es', S')"
        by (simp add: is_resource_name_def)
      from Cons.IH [OF this] True inS show ?thesis by auto
    next
      case notS: False
      with True Cons.prems obtain b where b: "zip_read jar name = Inr b"
        and r: "copy_resource_names jar names (writestr name b es, insert name S) = Inr (es', S')"
        by (auto simp: is_resource_name_def split: sum.splits)
      from Cons.IH [OF r] True notS zip_read_Inr [OF b] show ?thesis
        by (auto simp: writestr_def members_named_def)
    qed
  qed
qed

lemma map_of_rev_None: "map_of (rev j) x = None \<longleftrightarrow> x \<notin> set (namelist j)"
  by (simp add: map_of_eq_None_iff namelist_def)

lemma copy_resources_result:
  "copy_resources fs jars (es, S) = Inr (es', S') \<Longrightarrow> is_resource_name x \<Longrightarrow>
   members_named x es' =
     members_named x es @
       (if x \<in> S then []
        else case first_with_name fs x jars of None \<Rightarrow> [] | Some b \<Rightarrow> [(x, b)])"
proof (induction jars arbitrary: es S)
  case Nil
  then show ?case by simp
next
  case (Cons jar jars)
  from Cons.prems(1) obtain j es1 S1 where j: "zipfile_open fs jar = Inr j"
    and n: "copy_resource_names j (namelist j) (es, S) = Inr (es1, S1)"
    and r: "copy_resources fs jars (es1, S1) = Inr (es', S')"
    by (auto split: sum.splits)
  note A = copy_resource_names_result [OF n, of x]
  note B = Cons.IH [OF r Cons.prems(2)]
  show ?case
  proof (cases "x \<in> S")
    case True
    with A B show ?thesis by simp
  next
    case False
    show ?thesis
    proof (cases "map_of (rev j) x")
      case None
      then have "x \<notin> set (namelist j)" by (simp add: map_of_rev_None)
      with A B False None j show ?thesis by simp
    next
      case (Some b)
      then have "x \<in> set (namelist j)" using map_of_rev_None [of j x] by simp
      with A B False Some j Cons.prems(2) show ?thesis by simp
    qed
  qed
qed

lemma copy_resources_opened:
  "copy_resources fs jars st = Inr st' \<Longrightarrow> \<forall>j \<in> set jars. \<exists>es. zipfile_open fs j = Inr es"
  by (induction jars arbitrary: st) (auto split: sum.splits)

lemma zipfile_open_write_Unfinished:
  "zipfile_open (write_file fs p Unfinished) q = Inr es \<Longrightarrow> q \<noteq> p \<and> zipfile_open fs q = Inr es"
  by (auto simp: zipfile_open_def write_file_def split: if_splits)

lemma first_with_name_write_Unfinished:
  "\<forall>j \<in> set jars. j \<noteq> p \<Longrightarrow>
   first_with_name (write_file fs p Unfinished) x jars = first_with_name fs x jars"
proof (induction jars)
  case Nil
  show ?case by simp
next
  case (Cons j jars)
  then have o: "zipfile_open (write_file fs p Unfinished) j = zipfile_open fs j"
    by (simp add: zipfile_open_def write_file_def)
  from Cons have IH: "first_with_name (write_file fs p Unfinished) x jars = first_with_name fs x jars"
    by simp
  show ?case by (simp add: o IH split: sum.splits option.splits)
qed

lemma not_resource_manifest: "\<not> is_resource_name (path_join ''META-INF'' ''MANIFEST.MF'')"
  by (simp add: is_resource_name_def path_join_def startswith_def endswith_def str_upper_def
      upper_char_def)

lemma members_named_zip_notin:
  "x \<notin> set ns \<Longrightarrow> members_named x (zip ns bs) = []"
  by (auto simp: members_named_def filter_empty_conv dest: set_zip_leftD)

lemma members_named_boot:
  "members_named x (map (\<lambda>n. (n, the (map_of (rev boot) n)))
       (filter (\<lambda>n. \<not> endswith (str_lower n) ''manifest.mf'') (namelist boot)))
   = (if boot_claims boot x
      then map (\<lambda>n. (n, the (map_of (rev boot) n))) (filter (\<lambda>n. n = x) (namelist boot))
      else [])"
proof -
  have "filter (\<lambda>e. fst e = x) (map (\<lambda>n. (n, the (map_of (rev boot) n)))
       (filter (\<lambda>n. \<not> endswith (str_lower n) ''manifest.mf'') ns))
     = map (\<lambda>n. (n, the (map_of (rev boot) n)))
         (filter (\<lambda>n. n = x \<and> \<not> endswith (str_lower x) ''manifest.mf'') ns)" for ns
    by (induction ns) auto
  then show ?thesis
    by (auto simp: members_named_def boot_claims_def filter_empty_conv)
qed

lemma generate_one_jar_members:
  assumes run: "fst (generate_one_jar fs onejar main_class bootjar (main_jar # jars)) = Inr ()"
    and res: "is_resource_name x"
    and nn: "x \<notin> set (nested_names main_jar jars)"
  shows "\<exists>boot out.
     zipfile_open fs bootjar = Inr boot
     \<and> files (snd (generate_one_jar fs onejar main_class bootjar (main_jar # jars))) onejar
         = Some (ZipArchive out)
     \<and> members_named x out =
         (if boot_claims boot x
          then map (\<lambda>n. (n, the (map_of (rev boot) n))) (filter (\<lambda>n. n = x) (namelist boot))
          else case first_with_name fs x (main_jar # jars) of
                 None \<Rightarrow> [] | Some b \<Rightarrow> [(x, b)])"
proof -
  let ?fs1 = "write_file fs onejar Unfinished"
  let ?mf = "(path_join ''META-INF'' ''MANIFEST.MF'', Plain (one_jar_manifest main_class))"
  from run obtain boot es1 S es2 es3 es4 S'
    where ob: "zipfile_open ?fs1 bootjar = Inr boot"
      and cb: "copy_boot_names boot (namelist boot) ([], {}) = Inr (es1, S)"
      and am: "zip_write ?fs1 main_jar (path_join ''main'' (basename main_jar)) es1 = Inr es2"
      and wd: "write_deps ?fs1 jars es2 = Inr es3"
      and cr: "copy_resources ?fs1 (main_jar # jars) (es3, S) = Inr (es4, S')"
      and result: "generate_one_jar fs onejar main_class bootjar (main_jar # jars)
          = (Inr (), write_file ?fs1 onejar (ZipArchive (es4 @ [?mf])))"
    by (auto simp: generate_one_jar_def Let_def writestr_def split: sum.splits prod.splits)
  from zipfile_open_write_Unfinished [OF ob] have ob': "zipfile_open fs bootjar = Inr boot"
    by simp
  from copy_boot_names_result [OF cb]
  have es1: "es1 = map (\<lambda>n. (n, the (map_of (rev boot) n)))
               (filter (\<lambda>n. \<not> endswith (str_lower n) ''manifest.mf'') (namelist boot))"
    and S: "S = {n \<in> set (namelist boot). \<not> endswith (str_lower n) ''manifest.mf''}"
    by simp_all
  from zip_write_Inr [OF am] obtain b where
    es2: "es2 = es1 @ [(stored_name (path_join ''main'' (basename main_jar)), b)]"
    by blast
  from write_deps_result [OF wd] obtain bs where
    es3: "es3 = es2 @ zip (map (\<lambda>dep. stored_name (path_join ''lib'' (basename dep))) jars) bs"
    by blast
  have z1: "members_named x
      (zip (map (\<lambda>dep. stored_name (path_join ''lib'' (basename dep))) jars) bs) = []"
    using nn by (intro members_named_zip_notin) (simp add: nested_names_def)
  have z2: "members_named x [(stored_name (path_join ''main'' (basename main_jar)), b)] = []"
    using nn by (auto simp: nested_names_def members_named_def)
  have n3: "members_named x es3 = members_named x es1"
    unfolding es3 es2 members_named_append z1 z2 by simp
  have "\<forall>j \<in> set (main_jar # jars). j \<noteq> onejar"
    using copy_resources_opened [OF cr] zipfile_open_write_Unfinished by blast
  then have fw: "first_with_name ?fs1 x (main_jar # jars) = first_with_name fs x (main_jar # jars)"
    by (rule first_with_name_write_Unfinished)
  have xS: "x \<in> S \<longleftrightarrow> boot_claims boot x"
    by (auto simp: S boot_claims_def)
  have n4: "members_named x es4 =
     members_named x es1 @
       (if boot_claims boot x then []
        else case first_with_name fs x (main_jar # jars) of None \<Rightarrow> [] | Some b \<Rightarrow> [(x, b)])"
    using copy_resources_result [OF cr res] by (simp only: n3 fw xS)
  have xm: "x \<noteq> path_join ''META-INF'' ''MANIFEST.MF''"
    using res not_resource_manifest by auto
  have "members_named x (es4 @ [?mf]) =
       (if boot_claims boot x
          then map (\<lambda>n. (n, the (map_of (rev boot) n))) (filter (\<lambda>n. n = x) (namelist boot))
          else case first_with_name fs x (main_jar # jars) of
                 None \<Rightarrow> [] | Some b \<Rightarrow> [(x, b)])"
    using xm by (simp add: n4 es1 members_named_boot) (simp add: members_named_def)
  moreover have "files (snd (generate_one_jar fs onejar main_class bootjar (main_jar # jars))) onejar
         = Some (ZipArchive (es4 @ [?mf]))"
    by (simp add: result write_file_def)
  ultimately show ?thesis using ob' by blast
qed


text \<open>
  C3. In a successful run of \<open>generate_one_jar\<close>, take a name \<open>x\<close> that the composer
  copies flattened (not a class, not under \<open>META-INF\<close>) and that is not the name of a
  nested archive. If the loader archive holds \<open>x\<close>, the members named \<open>x\<close> of the output
  are the loader's copies only. Otherwise there is at most one member named \<open>x\<close>, and it
  comes from the first archive, in the order main archive, then dependencies as listed,
  that holds \<open>x\<close>; in particular, when the main archive holds \<open>x\<close>, the output has exactly
  one member named \<open>x\<close>, with the main archive's content, whatever the dependencies hold.
\<close>

theorem one_jar_first_writer_wins:
  assumes run: "fst (generate_one_jar fs onejar main_class bootjar (main_jar # jars)) = Inr ()"
    and res: "is_resource_name x"
    and nn: "x \<notin> set (nested_names main_jar jars)"
  shows "\<exists>boot out.
     zipfile_open fs bootjar = Inr boot
     \<and> files (snd (generate_one_jar fs onejar main_class bootjar (main_jar # jars))) onejar
         = Some (ZipArchive out)
     \<and> (boot_claims boot x \<longrightarrow>
          members_named x out =
            map (\<lambda>n. (n, the (map_of (rev boot) n))) (filter (\<lambda>n. n = x) (namelist boot)))
     \<and> (\<not> boot_claims boot x \<longrightarrow>
          members_named x out =
            (case first_with_name fs x (main_jar # jars) of None \<Rightarrow> [] | Some b \<Rightarrow> [(x, b)]))
     \<and> (\<not> boot_claims boot x \<longrightarrow>
          (\<forall>mj. zipfile_open fs main_jar = Inr mj \<and> x \<in> set (namelist mj) \<longrightarrow>
             members_named x out = [(x, the (map_of (rev mj) x))]))"
proof -
  from generate_one_jar_members [OF run res nn] obtain boot out where
    boot: "zipfile_open fs bootjar = Inr boot"
    and out: "files (snd (generate_one_jar fs onejar main_class bootjar (main_jar # jars))) onejar
         = Some (ZipArchive out)"
    and mem: "members_named x out =
         (if boot_claims boot x
          then map (\<lambda>n. (n, the (map_of (rev boot) n))) (filter (\<lambda>n. n = x) (namelist boot))
          else case first_with_name fs x (main_jar # jars) of
                 None \<Rightarrow> [] | Some b \<Rightarrow> [(x, b)])"
    by blast
  have main: "members_named x out = [(x, the (map_of (rev mj) x))]"
    if nb: "\<not> boot_claims boot x" and mj: "zipfile_open fs main_jar = Inr mj"
      and xin: "x \<in> set (namelist mj)" for mj
  proof -
    from xin obtain b where b: "map_of (rev mj) x = Some b"
      using map_of_rev_None [of mj x] by auto
    then have "first_with_name fs x (main_jar # jars) = Some b"
      by (simp add: mj)
    with mem nb b show ?thesis by simp
  qed
  show ?thesis
    using boot out mem main by (intro exI [of _ boot] exI [of _ out]) simp
qed

theorem one_jar_first_writer_wins_witness:
  "\<exists>out.
     files (snd (generate_one_jar example_jars ''out.jar'' ''app.Main'' ''boot.jar''
                   (''main.jar'' # [''dep.jar''])))
       ''out.jar'' = Some (ZipArchive out)
     \<and> members_named ''config.properties'' out = [(''config.properties'', Plain ''from main'')]"
proof -
  have h1: "fst (generate_one_jar example_jars ''out.jar'' ''app.Main'' ''boot.jar''
                   (''main.jar'' # [''dep.jar''])) = Inr ()"
    by code_simp
  have h2: "is_resource_name ''config.properties''"
    by code_simp
  have h3: "''config.properties'' \<notin> set (nested_names ''main.jar'' [''dep.jar''])"
    by code_simp
  from one_jar_first_writer_wins [OF h1 h2 h3] obtain boot out where
    boot: "zipfile_open example_jars ''boot.jar'' = Inr boot"
    and out: "files (snd (generate_one_jar example_jars ''out.jar'' ''app.Main'' ''boot.jar''
                   (''main.jar'' # [''dep.jar''])))
       ''out.jar'' = Some (ZipArchive out)"
    and main: "\<not> boot_claims boot ''config.properties'' \<longrightarrow>
          (\<forall>mj. zipfile_open example_jars ''main.jar'' = Inr mj
                \<and> ''config.properties'' \<in> set (namelist mj) \<longrightarrow>
             members_named ''config.properties'' out =
               [(''config.properties'', the (map_of (rev mj) ''config.properties''))])"
    by blast
  from boot have b: "boot =
           [(''META-INF/MANIFEST.MF'', Plain ''Main-Class: Boot''),
            (''com/simontuffs/onejar/Boot.class'', Plain ''boot class''),
            (''doc/one-jar-license.txt'', Plain ''license'')]"
    by (simp add: zipfile_open_def example_jars_def)
  have nb: "\<not> boot_claims boot ''config.properties''"
    by (simp add: b boot_claims_def namelist_def)
  have mj: "zipfile_open example_jars ''main.jar'' = Inr
           [(''META-INF/MANIFEST.MF'', Plain ''Created-By: blade''),
            (''app/Main.class'', Plain ''main class''),
            (''config.properties'', Plain ''from main'')]"
    by (simp add: zipfile_open_def example_jars_def)
  from main nb mj
  have "members_named ''config.properties'' out = [(''config.properties'', Plain ''from main'')]"
    by (simp add: namelist_def)
  with out show ?thesis by blast
qed

subsection \<open>Properties of the path functions\<close>

lemma rev_split: "xs = rev (dropWhile P (rev xs)) @ rev (takeWhile P (rev xs))"
proof -
  have "rev (takeWhile P (rev xs) @ dropWhile P (rev xs))
      = rev (dropWhile P (rev xs)) @ rev (takeWhile P (rev xs))"
    by (rule rev_append)
  then show ?thesis by (simp only: takeWhile_dropWhile_id rev_rev_ident)
qed

lemma dropWhile_until: "\<forall>c \<in> set xs. P c \<Longrightarrow> \<not> P y \<Longrightarrow> dropWhile P (xs @ y # ys) = y # ys"
  by (induction xs) auto

lemma takeWhile_until: "\<forall>c \<in> set xs. P c \<Longrightarrow> \<not> P y \<Longrightarrow> takeWhile P (xs @ y # ys) = xs"
  by (induction xs) auto

lemma dirname_head_basename: "p = dirname_head p @ basename p"
  unfolding dirname_head_def basename_def by (rule rev_split)

lemma dirname_head_last: "dirname_head p \<noteq> [] \<Longrightarrow> last (dirname_head p) = CHR ''/''"
proof -
  assume ne: "dirname_head p \<noteq> []"
  let ?d = "dropWhile (\<lambda>c. c \<noteq> CHR ''/'') (rev p)"
  from ne have "?d \<noteq> []" by (simp add: dirname_head_def)
  then have "\<not> (hd ?d \<noteq> CHR ''/'')" by (rule hd_dropWhile)
  moreover have "last (rev ?d) = hd ?d" using \<open>?d \<noteq> []\<close> by (simp add: last_rev)
  ultimately show ?thesis by (simp add: dirname_head_def)
qed

lemma rstrip_slash_decomp: "\<exists>k. s = rstrip_slash s @ replicate k CHR ''/''"
proof -
  let ?t = "takeWhile (\<lambda>c. c = CHR ''/'') (rev s)"
  have s: "s = rstrip_slash s @ rev ?t"
    unfolding rstrip_slash_def by (rule rev_split)
  have "\<forall>c \<in> set (rev ?t). c = CHR ''/''"
    by (auto dest: set_takeWhileD)
  then have "replicate (length (rev ?t)) CHR ''/'' = rev ?t"
    by (rule replicate_length_same)
  with s show ?thesis by metis
qed

lemma rstrip_slash_last: "rstrip_slash s \<noteq> [] \<Longrightarrow> last (rstrip_slash s) \<noteq> CHR ''/''"
proof -
  assume ne: "rstrip_slash s \<noteq> []"
  let ?d = "dropWhile (\<lambda>c. c = CHR ''/'') (rev s)"
  from ne have "?d \<noteq> []" by (simp add: rstrip_slash_def)
  then have "\<not> (hd ?d = CHR ''/'')" by (rule hd_dropWhile)
  moreover have "last (rev ?d) = hd ?d" using \<open>?d \<noteq> []\<close> by (simp add: last_rev)
  ultimately show ?thesis by (simp add: rstrip_slash_def)
qed

lemma rstrip_slash_empty: "rstrip_slash s = [] \<longleftrightarrow> s = replicate (length s) CHR ''/''"
proof
  assume "rstrip_slash s = []"
  with rstrip_slash_decomp [of s] obtain k where "s = replicate k CHR ''/''" by auto
  then show "s = replicate (length s) CHR ''/''" by (metis length_replicate)
next
  assume a: "s = replicate (length s) CHR ''/''"
  have "\<forall>c \<in> set (rev s). c = CHR ''/''"
  proof
    fix c assume "c \<in> set (rev s)"
    then have "c \<in> set (replicate (length s) CHR ''/'')" using a by simp
    then show "c = CHR ''/''" by simp
  qed
  then have "dropWhile (\<lambda>c. c = CHR ''/'') (rev s) = []" by simp
  then show "rstrip_slash s = []" by (simp add: rstrip_slash_def)
qed

lemma dirname_alt:
  "dirname p = (if rstrip_slash (dirname_head p) \<noteq> [] then rstrip_slash (dirname_head p)
                else dirname_head p)"
proof (cases "dirname_head p = []")
  case True
  then show ?thesis by (simp add: dirname_def rstrip_slash_def)
next
  case False
  then show ?thesis
    using rstrip_slash_empty [of "dirname_head p"] by (auto simp: dirname_def Let_def)
qed

lemma dirname_prefix: "\<exists>r. p = dirname p @ r"
proof (cases "rstrip_slash (dirname_head p) \<noteq> []")
  case True
  from rstrip_slash_decomp [of "dirname_head p"] obtain k where
    "dirname_head p = rstrip_slash (dirname_head p) @ replicate k CHR ''/''" by blast
  then have "p = rstrip_slash (dirname_head p) @ replicate k CHR ''/'' @ basename p"
    using dirname_head_basename [of p] by (metis append_assoc)
  with True show ?thesis by (auto simp: dirname_alt)
next
  case False
  then show ?thesis using dirname_head_basename [of p] by (auto simp: dirname_alt)
qed

lemma absolute_Cons: "absolute p \<longleftrightarrow> (\<exists>t. p = CHR ''/'' # t)"
  by (cases p) (auto simp: absolute_def startswith_def)

lemma dirname_relative: "\<not> absolute p \<Longrightarrow> \<not> absolute (dirname p)"
proof
  assume rel: "\<not> absolute p" and "absolute (dirname p)"
  then obtain t where t: "dirname p = CHR ''/'' # t" by (auto simp: absolute_Cons)
  from dirname_prefix [of p] obtain r where "p = dirname p @ r" by blast
  with t have "p = CHR ''/'' # (t @ r)" by simp
  with rel show False by (auto simp: absolute_Cons)
qed

lemma dirname_head_absolute: "absolute p \<Longrightarrow> dirname_head p \<noteq> []"
proof -
  assume "absolute p"
  then obtain t where "p = CHR ''/'' # t" by (auto simp: absolute_Cons)
  then have "CHR ''/'' \<in> set (rev p)" by simp
  then have "dropWhile (\<lambda>c. c \<noteq> CHR ''/'') (rev p) \<noteq> []"
    by simp
  then show ?thesis by (simp add: dirname_head_def)
qed

lemma dirname_absolute: "absolute p \<Longrightarrow> absolute (dirname p)"
proof -
  assume a: "absolute p"
  then obtain t where p: "p = CHR ''/'' # t" by (auto simp: absolute_Cons)
  have "dirname p \<noteq> []"
    using dirname_head_absolute [OF a] by (auto simp: dirname_alt)
  moreover from dirname_prefix [of p] obtain r where "p = dirname p @ r" by blast
  ultimately show ?thesis
    using p by (cases "dirname p") (auto simp: absolute_Cons)
qed

lemma relative_head_not_slashes:
  assumes "\<not> absolute p" and "dirname_head p \<noteq> []"
  shows "rstrip_slash (dirname_head p) \<noteq> []"
proof
  assume "rstrip_slash (dirname_head p) = []"
  then have s: "dirname_head p = replicate (length (dirname_head p)) CHR ''/''"
    by (simp add: rstrip_slash_empty)
  from assms(2) obtain c t where ct: "dirname_head p = c # t" by (cases "dirname_head p") auto
  with s have "c = CHR ''/''"
    by (metis length_Cons list.inject replicate_Suc)
  with ct dirname_head_basename [of p] have "p = CHR ''/'' # (t @ basename p)" by simp
  with assms(1) show False by (auto simp: absolute_Cons)
qed

lemma dirname_shorter:
  assumes "\<not> absolute p" and "p \<noteq> []"
  shows "length (dirname p) < length p"
proof (cases "dirname_head p = []")
  case True
  then have "dirname p = []" by (simp add: dirname_alt rstrip_slash_def)
  with assms(2) show ?thesis by simp
next
  case False
  from relative_head_not_slashes [OF assms(1) False]
  have r: "rstrip_slash (dirname_head p) \<noteq> []" .
  then have d: "dirname p = rstrip_slash (dirname_head p)" by (simp add: dirname_alt)
  from rstrip_slash_decomp [of "dirname_head p"] obtain k where
    k: "dirname_head p = rstrip_slash (dirname_head p) @ replicate k CHR ''/''" by blast
  have "k \<noteq> 0"
  proof
    assume "k = 0"
    with k have "dirname_head p = rstrip_slash (dirname_head p)" by simp
    with dirname_head_last [OF False] rstrip_slash_last [OF r] show False by simp
  qed
  then have "length (rstrip_slash (dirname_head p)) < length (dirname_head p)"
    using k by (metis length_append length_replicate less_add_same_cancel1 not_gr_zero)
  moreover have "length (dirname_head p) \<le> length p"
    using dirname_head_basename [of p] by (metis le_add1 length_append)
  ultimately show ?thesis using d by simp
qed

lemma dirname_no_trailing_slash:
  assumes "\<not> absolute p" and "dirname p \<noteq> []"
  shows "last (dirname p) \<noteq> CHR ''/''"
proof -
  have "dirname_head p \<noteq> []"
    using assms(2) by (auto simp: dirname_alt rstrip_slash_def split: if_splits)
  from relative_head_not_slashes [OF assms(1) this]
  have r: "rstrip_slash (dirname_head p) \<noteq> []" .
  then have "dirname p = rstrip_slash (dirname_head p)" by (simp add: dirname_alt)
  with rstrip_slash_last [OF r] show ?thesis by simp
qed

lemma dirname_basename_of_join:
  assumes "d \<noteq> []" and "last d \<noteq> CHR ''/''" and "CHR ''/'' \<notin> set b"
  shows "dirname (d @ CHR ''/'' # b) = d" and "basename (d @ CHR ''/'' # b) = b"
proof -
  have allb: "\<forall>c \<in> set (rev b). c \<noteq> CHR ''/''" using assms(3) by auto
  have revq: "rev (d @ CHR ''/'' # b) = rev b @ CHR ''/'' # rev d" by simp
  have dw: "dropWhile (\<lambda>c. c \<noteq> CHR ''/'') (rev b @ CHR ''/'' # rev d) = CHR ''/'' # rev d"
    using allb by (intro dropWhile_until) simp_all
  have tw: "takeWhile (\<lambda>c. c \<noteq> CHR ''/'') (rev b @ CHR ''/'' # rev d) = rev b"
    using allb by (intro takeWhile_until) simp_all
  have h: "dirname_head (d @ CHR ''/'' # b) = d @ [CHR ''/'']"
    unfolding dirname_head_def revq dw by simp
  have "hd (rev d) \<noteq> CHR ''/''" using assms(1,2) by (simp add: hd_rev)
  then have "dropWhile (\<lambda>c. c = CHR ''/'') (rev d) = rev d"
    using assms(1) by (cases "rev d") auto
  then have r: "rstrip_slash (d @ [CHR ''/'']) = d"
    by (simp add: rstrip_slash_def)
  show "dirname (d @ CHR ''/'' # b) = d"
    unfolding dirname_alt h r using assms(1) by simp
  show "basename (d @ CHR ''/'' # b) = b"
    unfolding basename_def revq tw by simp
qed

lemma str_split_no_sep: "\<forall>x \<in> set (str_split sep s). sep \<notin> set x"
proof (induction s)
  case Nil
  show ?case by simp
next
  case (Cons c s)
  then show ?case by (cases "str_split sep s") auto
qed

lemma normpath_step_components:
  assumes "\<forall>x \<in> set acc. x \<noteq> [] \<and> CHR ''/'' \<notin> set x" and "CHR ''/'' \<notin> set c"
  shows "\<forall>x \<in> set (normpath_step k acc c). x \<noteq> [] \<and> CHR ''/'' \<notin> set x"
  using assms by (auto simp: normpath_step_def dest: in_set_butlastD)

lemma normpath_components:
  assumes "\<forall>x \<in> set acc. x \<noteq> [] \<and> CHR ''/'' \<notin> set x"
    and "\<forall>c \<in> set comps. CHR ''/'' \<notin> set c"
  shows "\<forall>x \<in> set (foldl (normpath_step k) acc comps). x \<noteq> [] \<and> CHR ''/'' \<notin> set x"
  using assms
proof (induction comps arbitrary: acc)
  case Nil
  then show ?case by simp
next
  case (Cons c comps)
  from Cons.prems have "\<forall>x \<in> set (normpath_step k acc c). x \<noteq> [] \<and> CHR ''/'' \<notin> set x"
    by (intro normpath_step_components) auto
  from Cons.IH [OF this] Cons.prems(2) show ?case by simp
qed

lemma str_join_relative:
  assumes "xs \<noteq> []" and "\<forall>x \<in> set xs. x \<noteq> [] \<and> CHR ''/'' \<notin> set x"
  shows "\<exists>c t. str_join ''/'' xs = c # t \<and> c \<noteq> CHR ''/''"
proof -
  from assms obtain x ys where xs: "xs = x # ys" by (cases xs) auto
  with assms(2) obtain c t where x: "x = c # t" and c: "c \<noteq> CHR ''/''"
    by (cases x) auto
  show ?thesis
    using xs x c by (cases ys) auto
qed

lemma normpath_relative:
  assumes "\<not> startswith path ''/''"
  shows "\<exists>c t. normpath path = c # t \<and> c \<noteq> CHR ''/''"
proof (cases "path = []")
  case True
  then show ?thesis by (simp add: normpath_def)
next
  case False
  let ?new = "foldl (normpath_step 0) [] (str_split CHR ''/'' path)"
  have n: "normpath path = (if str_join ''/'' ?new = [] then ''.'' else str_join ''/'' ?new)"
    using False assms by (simp add: normpath_def Let_def)
  have comps: "\<forall>x \<in> set ?new. x \<noteq> [] \<and> CHR ''/'' \<notin> set x"
    by (rule normpath_components) (simp_all add: str_split_no_sep)
  show ?thesis
  proof (cases "?new = []")
    case True
    then show ?thesis by (simp add: n)
  next
    case ne: False
    from str_join_relative [OF ne comps] show ?thesis
      unfolding n by auto
  qed
qed

lemma zip_arcname_relative:
  assumes "\<not> startswith arcname ''/''"
  shows "zip_arcname arcname = Inr (normpath arcname)"
proof -
  from normpath_relative [OF assms] obtain c t where "normpath arcname = c # t" "c \<noteq> CHR ''/''"
    by blast
  then show ?thesis
    by (simp add: zip_arcname_def lstrip_slash_def)
qed

subsection \<open>Properties of the directory bookkeeping\<close>

lemma add_parent_dirs_relative:
  "\<not> absolute dir \<Longrightarrow> length dir \<le> n \<Longrightarrow>
   add_parent_dirs dir dirs = Some (dirs \<union> set (parent_chain n dir))"
proof (induction n arbitrary: dir dirs)
  case 0
  then show ?case by (simp add: add_parent_dirs.simps)
next
  case (Suc n)
  show ?case
  proof (cases "dir = []")
    case True
    then show ?thesis by (simp add: add_parent_dirs.simps)
  next
    case False
    with Suc.prems have "length (dirname dir) \<le> n"
      using dirname_shorter [of dir] by simp
    moreover have "\<not> absolute (dirname dir)"
      using Suc.prems(1) by (rule dirname_relative)
    ultimately have "add_parent_dirs (dirname dir) (insert dir dirs)
        = Some (insert dir dirs \<union> set (parent_chain n (dirname dir)))"
      by (intro Suc.IH)
    with False show ?thesis
      by (subst add_parent_dirs.simps) simp
  qed
qed

lemma add_parent_dirs_returns_relative:
  assumes a: "add_parent_dirs dir dirs = Some dirs'"
  shows "\<not> absolute dir"
proof (rule add_parent_dirs.raw_induct [where P = "\<lambda>dir dirs dirs'. \<not> absolute dir", OF _ a])
  fix f :: "string \<Rightarrow> string set \<Rightarrow> string set option" and dir dirs dirs'
  assume IH: "\<And>d b y. f d b = Some y \<Longrightarrow> \<not> absolute d"
    and step: "(if dir \<noteq> [] then f (dirname dir) (insert dir dirs) else Some dirs) = Some dirs'"
  show "\<not> absolute dir"
  proof (cases "dir = []")
    case True
    then show ?thesis by (simp add: absolute_Cons)
  next
    case False
    with step have "f (dirname dir) (insert dir dirs) = Some dirs'" by simp
    then have "\<not> absolute (dirname dir)" by (rule IH)
    then show ?thesis using dirname_absolute by blast
  qed
qed

lemma update_init_py_dirs_Some:
  assumes "update_init_py_dirs arcname (dirs, dirs_with_init_py) = Some (dirs', dirs_with_init_py')"
  shows "\<not> absolute arcname"
    and "dirs' = dirs \<union> set (parent_dirs arcname)"
    and "dirs_with_init_py' =
           (if basename arcname = ''__init__.py'' then insert (dirname arcname) dirs_with_init_py
            else dirs_with_init_py)"
proof -
  from assms have a: "add_parent_dirs (dirname arcname) dirs = Some dirs'"
    and w: "dirs_with_init_py' =
           (if basename arcname = ''__init__.py'' then insert (dirname arcname) dirs_with_init_py
            else dirs_with_init_py)"
    by (auto simp: update_init_py_dirs_def Let_def split: option.splits)
  from add_parent_dirs_returns_relative [OF a] have r: "\<not> absolute (dirname arcname)" .
  then show rel: "\<not> absolute arcname" using dirname_absolute by blast
  have "length (dirname arcname) \<le> length arcname"
    using dirname_prefix [of arcname] by (metis le_add1 length_append)
  from add_parent_dirs_relative [OF r this, of dirs] a
  show "dirs' = dirs \<union> set (parent_dirs arcname)"
    by (simp add: parent_dirs_def)
  show "dirs_with_init_py' =
           (if basename arcname = ''__init__.py'' then insert (dirname arcname) dirs_with_init_py
            else dirs_with_init_py)"
    by (rule w)
qed

lemma update_init_py_dirs_relative:
  assumes "\<not> absolute arcname"
  shows "update_init_py_dirs arcname (dirs, dirs_with_init_py) =
     Some (dirs \<union> set (parent_dirs arcname),
           if basename arcname = ''__init__.py'' then insert (dirname arcname) dirs_with_init_py
           else dirs_with_init_py)"
proof -
  have r: "\<not> absolute (dirname arcname)" using assms by (rule dirname_relative)
  have "length (dirname arcname) \<le> length arcname"
    using dirname_prefix [of arcname] by (metis le_add1 length_append)
  from add_parent_dirs_relative [OF r this, of dirs]
  show ?thesis by (simp add: update_init_py_dirs_def Let_def parent_dirs_def)
qed

subsection \<open>Properties of the composer of Python binaries\<close>


lemma pybin_add_pylib_srcs_result:
  assumes "pybin_add_pylib_srcs L fs base exclusions srcs (es, D, W) = Some (Inr (es', D', W'))"
  shows "es' = es @ pylib_entries L fs exclusions base srcs
    \<and> D' = D \<union> recorded_dirs (pylib_arcnames L exclusions base srcs)
    \<and> W' = W \<union> dirs_having_init_py (pylib_arcnames L exclusions base srcs)
    \<and> (\<forall>n \<in> set (pylib_arcnames L exclusions base srcs). \<not> absolute n)"
  using assms
proof (induction srcs arbitrary: es D W)
  case Nil
  then show ?case
    by (simp add: pylib_entries_def pylib_arcnames_def recorded_dirs_def dirs_having_init_py_def)
next
  case (Cons src srcs)
  obtain libsrc digest where src: "src = (libsrc, digest)" by (cases src)
  let ?arc = "relpath L libsrc base"
  show ?case
  proof (cases "is_python_excluded_path L ?arc exclusions")
    case True
    with Cons.prems src
    have "pybin_add_pylib_srcs L fs base exclusions srcs (es, D, W) = Some (Inr (es', D', W'))"
      by simp
    from Cons.IH [OF this] True src show ?thesis
      by (simp add: pylib_entries_def pylib_arcnames_def)
  next
    case False
    with Cons.prems src obtain D1 W1 es1 where
      u: "update_init_py_dirs ?arc (D, W) = Some (D1, W1)"
      and a: "zip_write fs libsrc ?arc es = Inr es1"
      and r: "pybin_add_pylib_srcs L fs base exclusions srcs (es1, D1, W1) = Some (Inr (es', D', W'))"
      by (auto simp: Let_def split: option.splits sum.splits)
    from zip_write_Inr [OF a] have es1: "es1 = es @ [(stored_name ?arc, the (files fs libsrc))]"
      by (auto simp: read_file_def split: option.splits)
    note U = update_init_py_dirs_Some [OF u]
    have pe: "pylib_entries L fs exclusions base (src # srcs)
        = (stored_name ?arc, the (files fs libsrc)) # pylib_entries L fs exclusions base srcs"
      using False src by (simp add: pylib_entries_def)
    have pa: "pylib_arcnames L exclusions base (src # srcs)
        = ?arc # pylib_arcnames L exclusions base srcs"
      using False src by (simp add: pylib_arcnames_def)
    from Cons.IH [OF r] U es1 show ?thesis
      unfolding pe pa by (auto simp: recorded_dirs_def dirs_having_init_py_def)
  qed
qed


lemma pybin_add_zip_names_untracked:
  assumes "pybin_add_zip_names L lib f exclusions names (es, None, None) = Some (Inr (es', d', w'))"
  shows "d' = None \<and> w' = None
    \<and> es' = es @ map (\<lambda>name. (name, the (map_of (rev lib) name)))
          (filter (\<lambda>name. f name \<and> \<not> is_python_excluded_path L name exclusions) names)"
  using assms
proof (induction names arbitrary: es)
  case Nil
  then show ?case by simp
next
  case (Cons name names)
  show ?case
  proof (cases "f name \<and> \<not> is_python_excluded_path L name exclusions")
    case False
    with Cons.prems
    have "pybin_add_zip_names L lib f exclusions names (es, None, None) = Some (Inr (es', d', w'))"
      by auto
    from Cons.IH [OF this] False show ?thesis by auto
  next
    case True
    with Cons.prems obtain b where b: "zip_read lib name = Inr b"
      and r: "pybin_add_zip_names L lib f exclusions names (writestr name b es, None, None)
          = Some (Inr (es', d', w'))"
      by (auto split: sum.splits)
    from Cons.IH [OF r] True zip_read_Inr [OF b] show ?thesis
      by (auto simp: writestr_def)
  qed
qed

lemma pybin_add_zip_names_tracked:
  assumes "pybin_add_zip_names L lib f exclusions names (es, Some D, Some W)
      = Some (Inr (es', d', w'))"
  shows "\<exists>D' W'. d' = Some D' \<and> w' = Some W'
    \<and> es' = es @ map (\<lambda>name. (name, the (map_of (rev lib) name)))
          (filter (\<lambda>name. f name \<and> \<not> is_python_excluded_path L name exclusions) names)
    \<and> D' = D \<union> recorded_dirs
          (filter (\<lambda>name. f name \<and> \<not> is_python_excluded_path L name exclusions) names)
    \<and> W' = W \<union> dirs_having_init_py
          (filter (\<lambda>name. f name \<and> \<not> is_python_excluded_path L name exclusions) names)
    \<and> (\<forall>n \<in> set (filter (\<lambda>name. f name \<and> \<not> is_python_excluded_path L name exclusions) names).
          \<not> absolute n)"
  using assms
proof (induction names arbitrary: es D W)
  case Nil
  then show ?case by (simp add: recorded_dirs_def dirs_having_init_py_def)
next
  case (Cons name names)
  show ?case
  proof (cases "f name \<and> \<not> is_python_excluded_path L name exclusions")
    case False
    with Cons.prems
    have "pybin_add_zip_names L lib f exclusions names (es, Some D, Some W)
        = Some (Inr (es', d', w'))"
      by auto
    from Cons.IH [OF this] False show ?thesis by auto
  next
    case True
    with Cons.prems obtain D1 W1 b where
      u: "update_init_py_dirs name (D, W) = Some (D1, W1)"
      and b: "zip_read lib name = Inr b"
      and r: "pybin_add_zip_names L lib f exclusions names (writestr name b es, Some D1, Some W1)
          = Some (Inr (es', d', w'))"
      by (auto split: sum.splits option.splits)
    note U = update_init_py_dirs_Some [OF u]
    from Cons.IH [OF r] obtain D' W' where
      IH: "d' = Some D'" "w' = Some W'"
        "es' = writestr name b es @ map (\<lambda>name. (name, the (map_of (rev lib) name)))
          (filter (\<lambda>name. f name \<and> \<not> is_python_excluded_path L name exclusions) names)"
        "D' = D1 \<union> recorded_dirs
          (filter (\<lambda>name. f name \<and> \<not> is_python_excluded_path L name exclusions) names)"
        "W' = W1 \<union> dirs_having_init_py
          (filter (\<lambda>name. f name \<and> \<not> is_python_excluded_path L name exclusions) names)"
        "\<forall>n \<in> set (filter (\<lambda>name. f name \<and> \<not> is_python_excluded_path L name exclusions) names).
          \<not> absolute n"
      by blast
    show ?thesis
      using IH U True zip_read_Inr [OF b]
      by (auto simp: writestr_def recorded_dirs_def dirs_having_init_py_def)
  qed
qed


lemma recorded_dirs_append [simp]:
  "recorded_dirs (xs @ ys) = recorded_dirs xs \<union> recorded_dirs ys"
  by (auto simp: recorded_dirs_def)

lemma dirs_having_init_py_append [simp]:
  "dirs_having_init_py (xs @ ys) = dirs_having_init_py xs \<union> dirs_having_init_py ys"
  by (auto simp: dirs_having_init_py_def)

lemma recorded_dirs_Nil [simp]: "recorded_dirs [] = {}"
  by (simp add: recorded_dirs_def)

lemma dirs_having_init_py_Nil [simp]: "dirs_having_init_py [] = {}"
  by (simp add: dirs_having_init_py_def)

lemma names_zip_entries:
  "map fst (zip_entries L f exclusions lib) =
   filter (\<lambda>name. f name \<and> \<not> is_python_excluded_path L name exclusions) (namelist lib)"
  by (simp add: zip_entries_def comp_def)

lemma pybin_add_arg_result:
  assumes "pybin_add_arg L fs exclusions arg (es, D, W) = Some (Inr (es', D', W'))"
  shows "recognized arg
    \<and> es' = es @ source_entries L fs exclusions arg
    \<and> D' = D \<union> recorded_dirs (tracked_names L fs exclusions [arg])
    \<and> W' = W \<union> dirs_having_init_py (tracked_names L fs exclusions [arg])
    \<and> (\<forall>n \<in> set (tracked_names L fs exclusions [arg]). \<not> absolute n)"
proof -
  consider (pylib) "endswith arg ''.pylib''"
    | (egg) "\<not> endswith arg ''.pylib''" "endswith arg ''.egg''"
    | (whl) "\<not> endswith arg ''.pylib''" "\<not> endswith arg ''.egg''" "endswith arg ''.whl''"
    | (other) "\<not> endswith arg ''.pylib''" "\<not> endswith arg ''.egg''" "\<not> endswith arg ''.whl''"
    by blast
  then show ?thesis
  proof cases
    case pylib
    with assms obtain base srcs where d: "files fs arg = Some (Descriptor base srcs)"
      and r: "pybin_add_pylib_srcs L fs base exclusions srcs (es, D, W) = Some (Inr (es', D', W'))"
      by (auto simp: pybin_add_arg_def pybin_add_pylib_def read_file_def
          split: option.splits blob.splits)
    have se: "source_entries L fs exclusions arg = pylib_entries L fs exclusions base srcs"
      using pylib d by (simp add: source_entries_def)
    have tn: "tracked_names L fs exclusions [arg] = pylib_arcnames L exclusions base srcs"
      using pylib d by (simp add: tracked_names_def is_egg_def source_arcnames_def)
    from pybin_add_pylib_srcs_result [OF r] pylib show ?thesis
      unfolding se tn by (simp add: recognized_def)
  next
    case egg
    with assms obtain lib d' w' where o: "zipfile_open fs arg = Inr lib"
      and r: "pybin_add_zip_names L lib egg_filter exclusions (namelist lib) (es, None, None)
          = Some (Inr (es', d', w'))"
      and DW: "D' = D" "W' = W"
      by (auto simp: pybin_add_arg_def pybin_add_egg_def pybin_add_zip_def
          split: option.splits sum.splits)
    have se: "source_entries L fs exclusions arg = zip_entries L egg_filter exclusions lib"
      using egg o by (simp add: source_entries_def)
    have tn: "tracked_names L fs exclusions [arg] = []"
      using egg by (simp add: tracked_names_def is_egg_def)
    from pybin_add_zip_names_untracked [OF r] egg DW show ?thesis
      unfolding se tn by (simp add: recognized_def zip_entries_def)
  next
    case whl
    with assms obtain lib d' w' where o: "zipfile_open fs arg = Inr lib"
      and r: "pybin_add_zip_names L lib whl_filter exclusions (namelist lib) (es, Some D, Some W)
          = Some (Inr (es', d', w'))"
      and DW: "d' = Some D' \<and> w' = Some W' \<or> (d' = None \<or> w' = None) \<and> D' = D \<and> W' = W"
      by (auto simp: pybin_add_arg_def pybin_add_whl_def pybin_add_zip_def
          split: option.splits sum.splits)
    have se: "source_entries L fs exclusions arg = zip_entries L whl_filter exclusions lib"
      using whl o by (simp add: source_entries_def)
    have tn: "tracked_names L fs exclusions [arg] =
        filter (\<lambda>name. whl_filter name \<and> \<not> is_python_excluded_path L name exclusions) (namelist lib)"
      using whl se by (simp add: tracked_names_def is_egg_def source_arcnames_def names_zip_entries)
    from pybin_add_zip_names_tracked [OF r] DW whl show ?thesis
      unfolding se tn by (auto simp: recognized_def zip_entries_def)
  next
    case other
    with assms show ?thesis by (simp add: pybin_add_arg_def)
  qed
qed

lemma tracked_names_Cons:
  "tracked_names L fs exclusions (arg # args) =
   tracked_names L fs exclusions [arg] @ tracked_names L fs exclusions args"
  by (simp add: tracked_names_def)

lemma pybin_add_args_result:
  assumes "pybin_add_args L fs exclusions args (es, D, W) = Some (Inr (es', D', W'))"
  shows "(\<forall>arg \<in> set args. recognized arg)
    \<and> es' = es @ concat (map (source_entries L fs exclusions) args)
    \<and> D' = D \<union> recorded_dirs (tracked_names L fs exclusions args)
    \<and> W' = W \<union> dirs_having_init_py (tracked_names L fs exclusions args)
    \<and> (\<forall>n \<in> set (tracked_names L fs exclusions args). \<not> absolute n)"
  using assms
proof (induction args arbitrary: es D W)
  case Nil
  then show ?case by (simp add: tracked_names_def)
next
  case (Cons arg args)
  from Cons.prems obtain es1 D1 W1 where
    a: "pybin_add_arg L fs exclusions arg (es, D, W) = Some (Inr (es1, D1, W1))"
    and r: "pybin_add_args L fs exclusions args (es1, D1, W1) = Some (Inr (es', D', W'))"
    by (auto split: option.splits sum.splits)
  from pybin_add_arg_result [OF a] Cons.IH [OF r] show ?case
    unfolding tracked_names_Cons [of L fs exclusions arg args]
    by (auto simp: Un_assoc)
qed


lemma read_file_write_file: "read_file (write_file fs p b) p = Inr b"
  by (simp add: read_file_def write_file_def)

lemma generate_python_binary_ok:
  assumes "returns_ok (generate_python_binary L fs pybin basedir exclusions mainentry args)"
  shows "generate_python_binary L fs pybin basedir exclusions mainentry args =
     Some (Inr (),
       chmod
         (write_file
            (write_file (write_file fs pybin Unfinished) pybin
               (ZipArchive (contributed L fs pybin exclusions args @
                  init_py_markers (recorded_dirs (tracked L fs pybin exclusions args))
                    (dirs_having_init_py (tracked L fs pybin exclusions args)))))
            pybin
            (Prefixed (bootstrap mainentry)
               (ZipArchive (contributed L fs pybin exclusions args @
                  init_py_markers (recorded_dirs (tracked L fs pybin exclusions args))
                    (dirs_having_init_py (tracked L fs pybin exclusions args))))))
         pybin mode_755)"
    and "\<forall>arg \<in> set args. recognized arg"
    and "\<forall>n \<in> set (tracked L fs pybin exclusions args). \<not> absolute n"
proof -
  let ?fs1 = "write_file fs pybin Unfinished"
  let ?ex = "str_split CHR '','' exclusions"
  from assms obtain es D W where
    r: "pybin_add_args L ?fs1 ?ex args ([], {}, {}) = Some (Inr (es, D, W))"
    by (auto simp: returns_ok_def generate_python_binary_def Let_def
        split: option.splits sum.splits prod.splits)
  note R = pybin_add_args_result [OF r]
  from R have es: "es = contributed L fs pybin exclusions args"
    and D: "D = recorded_dirs (tracked L fs pybin exclusions args)"
    and W: "W = dirs_having_init_py (tracked L fs pybin exclusions args)"
    by (simp_all add: contributed_def tracked_def)
  show "generate_python_binary L fs pybin basedir exclusions mainentry args =
     Some (Inr (),
       chmod
         (write_file
            (write_file (write_file fs pybin Unfinished) pybin
               (ZipArchive (contributed L fs pybin exclusions args @
                  init_py_markers (recorded_dirs (tracked L fs pybin exclusions args))
                    (dirs_having_init_py (tracked L fs pybin exclusions args)))))
            pybin
            (Prefixed (bootstrap mainentry)
               (ZipArchive (contributed L fs pybin exclusions args @
                  init_py_markers (recorded_dirs (tracked L fs pybin exclusions args))
                    (dirs_having_init_py (tracked L fs pybin exclusions args))))))
         pybin mode_755)"
    unfolding es [symmetric] D [symmetric] W [symmetric]
    by (simp add: generate_python_binary_def Let_def r read_file_write_file)
  from R show "\<forall>arg \<in> set args. recognized arg" by simp
  from R show "\<forall>n \<in> set (tracked L fs pybin exclusions args). \<not> absolute n"
    by (simp add: tracked_def)
qed

lemma pybin_output_ok:
  assumes "returns_ok (generate_python_binary L fs pybin basedir exclusions mainentry args)"
  shows "pybin_output (generate_python_binary L fs pybin basedir exclusions mainentry args) pybin =
     Some (Prefixed (bootstrap mainentry)
       (ZipArchive (contributed L fs pybin exclusions args @
          init_py_markers (recorded_dirs (tracked L fs pybin exclusions args))
            (dirs_having_init_py (tracked L fs pybin exclusions args)))))"
    and "pybin_mode (generate_python_binary L fs pybin basedir exclusions mainentry args) pybin =
     Some mode_755"
  unfolding generate_python_binary_ok(1) [OF assms]
  by (simp_all add: pybin_output_def pybin_mode_def chmod_def write_file_def)

lemma pybin_add_args_unrecognized:
  assumes "\<not> recognized a"
    and "pybin_add_args L fs exclusions pre st = Some (Inr st1)"
  shows "pybin_add_args L fs exclusions (pre @ a # post) st = Some (Inl AssertionError)"
  using assms(2)
proof (induction pre arbitrary: st)
  case Nil
  then show ?case using assms(1) by (simp add: pybin_add_arg_def recognized_def)
next
  case (Cons b pre)
  then show ?case by (auto split: option.splits sum.splits)
qed

lemma generate_python_binary_error:
  assumes "generate_python_binary L fs pybin basedir exclusions mainentry args = Some (Inl e, fs')"
  shows "fs' = write_file fs pybin Unfinished"
  using assms
  by (auto simp: generate_python_binary_def Let_def read_file_def write_file_def
      split: option.splits sum.splits prod.splits)

subsection \<open>When the composer of Python binaries returns\<close>

lemma zip_read_member: "name \<in> set (namelist lib) \<Longrightarrow> \<exists>b. zip_read lib name = Inr b"
proof -
  assume "name \<in> set (namelist lib)"
  then have "map_of (rev lib) name \<noteq> None"
    by (simp add: map_of_eq_None_iff namelist_def)
  then show ?thesis by (auto simp: zip_read_def)
qed

lemma pybin_add_pylib_srcs_returns:
  assumes "list_all (\<lambda>(libsrc, digest).
                 is_python_excluded_path L (relpath L libsrc base) exclusions
                 \<or> (\<not> absolute (relpath L libsrc base) \<and> files fs libsrc \<noteq> None)) srcs"
  shows "\<exists>st'. pybin_add_pylib_srcs L fs base exclusions srcs st = Some (Inr st')"
  using assms
proof (induction srcs arbitrary: st)
  case Nil
  show ?case by (rule exI [of _ st]) simp
next
  case (Cons src srcs)
  obtain libsrc digest where src: "src = (libsrc, digest)" by (cases src)
  obtain es D W where st: "st = (es, D, W)" by (rule prod_cases3)
  from Cons.prems have rest: "list_all (\<lambda>(libsrc, digest).
                 is_python_excluded_path L (relpath L libsrc base) exclusions
                 \<or> (\<not> absolute (relpath L libsrc base) \<and> files fs libsrc \<noteq> None)) srcs"
    by simp
  show ?case
  proof (cases "is_python_excluded_path L (relpath L libsrc base) exclusions")
    case True
    with Cons.IH [OF rest, of st] show ?thesis by (simp add: src st)
  next
    case False
    with Cons.prems src have rel: "\<not> absolute (relpath L libsrc base)"
      and rd: "files fs libsrc \<noteq> None" by auto
    from rd obtain b where b: "files fs libsrc = Some b" by auto
    have a: "zip_write fs libsrc (relpath L libsrc base) es
        = Inr (es @ [(normpath (relpath L libsrc base), b)])"
      using rel zip_arcname_relative [of "relpath L libsrc base"]
      by (simp add: zip_write_def read_file_def b absolute_def)
    note u = update_init_py_dirs_relative [OF rel, of D W]
    from Cons.IH [OF rest] show ?thesis
      using False by (simp add: src st u a Let_def)
  qed
qed

lemma pybin_add_zip_names_returns:
  assumes "set names \<subseteq> set (namelist lib)"
    and "track \<longrightarrow> (\<forall>name \<in> set names.
           f name \<and> \<not> is_python_excluded_path L name exclusions \<longrightarrow> \<not> absolute name)"
  shows "\<exists>es' D' W'. pybin_add_zip_names L lib f exclusions names
            (es, if track then Some D else None, if track then Some W else None)
          = Some (Inr (es', if track then Some D' else None, if track then Some W' else None))"
  using assms
proof (induction names arbitrary: es D W)
  case Nil
  show ?case by auto
next
  case (Cons name names)
  from Cons.prems have sub: "set names \<subseteq> set (namelist lib)"
    and tr: "track \<longrightarrow> (\<forall>name \<in> set names.
           f name \<and> \<not> is_python_excluded_path L name exclusions \<longrightarrow> \<not> absolute name)"
    by auto
  note IH = Cons.IH [OF sub tr]
  show ?case
  proof (cases "f name \<and> \<not> is_python_excluded_path L name exclusions")
    case False
    with IH [of es D W] show ?thesis by auto
  next
    case True
    from Cons.prems(1) obtain b where b: "zip_read lib name = Inr b"
      using zip_read_member [of name lib] by auto
    show ?thesis
    proof (cases track)
      case False
      with IH [of "writestr name b es" D W] True b show ?thesis by simp
    next
      case t: True
      with Cons.prems(2) True have rel: "\<not> absolute name" by simp
      note u = update_init_py_dirs_relative [OF rel, of D W]
      from IH [of "writestr name b es"] t True b show ?thesis by (simp add: u)
    qed
  qed
qed

lemma pybin_add_arg_returns:
  assumes "source_ok L fs exclusions arg"
  shows "\<exists>st'. pybin_add_arg L fs exclusions arg st = Some (Inr st')"
proof -
  obtain es D W where st: "st = (es, D, W)" by (rule prod_cases3)
  consider (pylib) "endswith arg ''.pylib''"
    | (egg) "\<not> endswith arg ''.pylib''" "endswith arg ''.egg''"
    | (whl) "\<not> endswith arg ''.pylib''" "\<not> endswith arg ''.egg''" "endswith arg ''.whl''"
    | (other) "\<not> endswith arg ''.pylib''" "\<not> endswith arg ''.egg''" "\<not> endswith arg ''.whl''"
    by blast
  then show ?thesis
  proof cases
    case pylib
    with assms obtain base srcs where d: "files fs arg = Some (Descriptor base srcs)"
      and ok: "list_all (\<lambda>(libsrc, digest).
                 is_python_excluded_path L (relpath L libsrc base) exclusions
                 \<or> (\<not> absolute (relpath L libsrc base) \<and> files fs libsrc \<noteq> None)) srcs"
      by (auto simp: source_ok_def split: option.splits blob.splits)
    from pybin_add_pylib_srcs_returns [OF ok, of st] pylib d show ?thesis
      by (simp add: pybin_add_arg_def pybin_add_pylib_def read_file_def)
  next
    case egg
    with assms obtain lib where o: "zipfile_open fs arg = Inr lib"
      by (auto simp: source_ok_def split: sum.splits)
    from pybin_add_zip_names_returns [of "namelist lib" lib False egg_filter L exclusions es D W]
    obtain es' where "pybin_add_zip_names L lib egg_filter exclusions (namelist lib) (es, None, None)
        = Some (Inr (es', None, None))"
      by auto
    with egg o show ?thesis
      by (simp add: pybin_add_arg_def pybin_add_egg_def pybin_add_zip_def st)
  next
    case whl
    with assms obtain lib where o: "zipfile_open fs arg = Inr lib"
      and rel: "list_all (\<lambda>name. \<not> absolute name)
                        (map fst (zip_entries L whl_filter exclusions lib))"
      by (auto simp: source_ok_def split: sum.splits)
    from rel have "\<forall>name \<in> set (namelist lib).
           whl_filter name \<and> \<not> is_python_excluded_path L name exclusions \<longrightarrow> \<not> absolute name"
      by (auto simp: names_zip_entries list_all_iff)
    with pybin_add_zip_names_returns [of "namelist lib" lib True whl_filter L exclusions es D W]
    obtain es' D' W' where "pybin_add_zip_names L lib whl_filter exclusions (namelist lib)
        (es, Some D, Some W) = Some (Inr (es', Some D', Some W'))"
      by auto
    with whl o show ?thesis
      by (simp add: pybin_add_arg_def pybin_add_whl_def pybin_add_zip_def st)
  next
    case other
    with assms show ?thesis by (simp add: source_ok_def)
  qed
qed

lemma pybin_add_args_returns:
  assumes "\<forall>arg \<in> set args. source_ok L fs exclusions arg"
  shows "\<exists>st'. pybin_add_args L fs exclusions args st = Some (Inr st')"
  using assms
proof (induction args arbitrary: st)
  case Nil
  show ?case by (rule exI [of _ st]) simp
next
  case (Cons arg args)
  from Cons.prems have "source_ok L fs exclusions arg" by simp
  from pybin_add_arg_returns [OF this, of st] obtain st1 where
    a: "pybin_add_arg L fs exclusions arg st = Some (Inr st1)" ..
  from Cons.prems have "\<forall>arg \<in> set args. source_ok L fs exclusions arg" by simp
  from Cons.IH [OF this, of st1] a show ?case by simp
qed

text \<open>
  The composer returns, and without error, whenever every argument is a source that can
  be added.
\<close>

lemma generate_python_binary_returns:
  assumes "sources_ok L fs pybin exclusions args"
  shows "returns_ok (generate_python_binary L fs pybin basedir exclusions mainentry args)"
proof -
  from assms have "\<forall>arg \<in> set args.
      source_ok L (write_file fs pybin Unfinished) (str_split CHR '','' exclusions) arg"
    by (simp add: sources_ok_def list_all_iff)
  from pybin_add_args_returns [OF this, of "([], {}, {})"] obtain es D W where
    "pybin_add_args L (write_file fs pybin Unfinished) (str_split CHR '','' exclusions) args
       ([], {}, {}) = Some (Inr (es, D, W))"
    by (metis prod_cases3)
  then show ?thesis
    by (simp add: returns_ok_def generate_python_binary_def Let_def read_file_write_file)
qed

subsection \<open>What the composer of Python binaries writes\<close>

text \<open>
  C8. When an argument of \<open>generate_python_binary\<close> ends in none of \<open>.pylib\<close>, \<open>.egg\<close>
  and \<open>.whl\<close>, the run never returns without error; whenever it returns, it has raised,
  the output path holds the archive that was opened and never closed, and no prologue was
  written and no permission set. When the arguments before it were added without failure,
  the error is the failed assertion.
\<close>

theorem python_binary_unknown_format_aborts:
  assumes "a \<in> set args" and "\<not> recognized a"
  shows "\<not> returns_ok (generate_python_binary L fs pybin basedir exclusions mainentry args)
    \<and> (\<forall>r fs'. generate_python_binary L fs pybin basedir exclusions mainentry args = Some (r, fs')
          \<longrightarrow> (\<exists>e. r = Inl e) \<and> fs' = write_file fs pybin Unfinished)
    \<and> (\<forall>pre post st.
          args = pre @ a # post
          \<and> pybin_add_args L (write_file fs pybin Unfinished) (str_split CHR '','' exclusions) pre
                ([], {}, {}) = Some (Inr st)
          \<longrightarrow> generate_python_binary L fs pybin basedir exclusions mainentry args
                = Some (Inl AssertionError, write_file fs pybin Unfinished))"
proof (intro conjI allI impI)
  show no: "\<not> returns_ok (generate_python_binary L fs pybin basedir exclusions mainentry args)"
    using generate_python_binary_ok(2) assms by blast
  fix r fs'
  assume ret: "generate_python_binary L fs pybin basedir exclusions mainentry args = Some (r, fs')"
  show "\<exists>e. r = Inl e"
  proof (cases r)
    case (Inl e)
    then show ?thesis by blast
  next
    case (Inr u)
    with ret have "returns_ok (generate_python_binary L fs pybin basedir exclusions mainentry args)"
      by (simp add: returns_ok_def)
    with no show ?thesis by simp
  qed
  then obtain e where "r = Inl e" ..
  with ret show "fs' = write_file fs pybin Unfinished"
    using generate_python_binary_error by blast
next
  fix pre post st
  assume h: "args = pre @ a # post
          \<and> pybin_add_args L (write_file fs pybin Unfinished) (str_split CHR '','' exclusions) pre
                ([], {}, {}) = Some (Inr st)"
  then have "pybin_add_args L (write_file fs pybin Unfinished) (str_split CHR '','' exclusions)
      (pre @ a # post) ([], {}, {}) = Some (Inl AssertionError)"
    using assms(2) by (intro pybin_add_args_unrecognized) auto
  with h show "generate_python_binary L fs pybin basedir exclusions mainentry args
                = Some (Inl AssertionError, write_file fs pybin Unfinished)"
    by (simp add: generate_python_binary_def Let_def)
qed

theorem python_binary_unknown_format_aborts_witness:
  "\<not> returns_ok (generate_python_binary example_lib example_py ''app'' ''.'' '''' ''pkg.main''
        [''a.pylib'', ''notes.txt'', ''d.whl''])
   \<and> generate_python_binary example_lib example_py ''app'' ''.'' '''' ''pkg.main''
        [''a.pylib'', ''notes.txt'', ''d.whl'']
       = Some (Inl AssertionError, write_file example_py ''app'' Unfinished)"
proof -
  have h1: "''notes.txt'' \<in> set [''a.pylib'', ''notes.txt'', ''d.whl'']" by simp
  have h2: "\<not> recognized ''notes.txt''" by code_simp
  have h3: "[''a.pylib'', ''notes.txt'', ''d.whl''] = [''a.pylib''] @ ''notes.txt'' # [''d.whl'']"
    by simp
  have h4: "\<exists>st. pybin_add_args example_lib (write_file example_py ''app'' Unfinished)
      (str_split CHR '','' '''') [''a.pylib''] ([], {}, {}) = Some (Inr st)"
  proof -
    have "(case pybin_add_args example_lib (write_file example_py ''app'' Unfinished)
      (str_split CHR '','' '''') [''a.pylib''] ([], {}, {}) of Some (Inr st) \<Rightarrow> True | _ \<Rightarrow> False)"
      by code_simp
    then show ?thesis by (auto split: option.splits sum.splits)
  qed
  from python_binary_unknown_format_aborts [OF h1 h2, of example_lib example_py "''app''" "''.''"
      "''''" "''pkg.main''"] h3 h4
  show ?thesis by blast
qed

lemma sh_parse_plain:
  assumes "shell_plain m"
  shows "sh_parse DoubleQuoted (Some (w, plain)) cmd (m @ rest) =
     sh_parse DoubleQuoted (Some (w @ m, plain)) cmd rest"
  using assms
proof (induction m arbitrary: w)
  case Nil
  show ?case by simp
next
  case (Cons c m)
  from Cons.prems have c: "c \<noteq> CHR 0x22" "c \<noteq> CHR 0x5C" "c \<noteq> CHR 0x24" "c \<noteq> CHR 0x60"
    and m: "shell_plain m"
    by (simp_all add: shell_plain_def)
  have "sh_parse DoubleQuoted (Some (w, plain)) cmd ((c # m) @ rest) =
      sh_parse DoubleQuoted (Some (w @ [c], plain)) cmd (m @ rest)"
    using c by (simp add: sh_push_def)
  also have "\<dots> = sh_parse DoubleQuoted (Some ((w @ [c]) @ m, plain)) cmd rest"
    using m by (rule Cons.IH)
  finally show ?case by simp
qed

lemma sh_end_command_Nil: "map_option (sh_end_command []) r = r"
  by (cases r) (simp_all add: sh_end_command_def)

lemma bootstrap_script:
  assumes "shell_plain m"
  shows "sh_script (bootstrap m) =
     Some [[(''PYTHONPATH=$0:$PYTHONPATH'', False), (''exec'', True), (''python'', True),
            (''-m'', True), (m, True), (''$@'', False)]]"
proof -
  let ?cmd = "[(''PYTHONPATH=$0:$PYTHONPATH'', False), (''exec'', True), (''python'', True),
               (''-m'', True)]"
  let ?rest = "[CHR 0x22, CHR 0x20, CHR 0x22, CHR 0x24, CHR 0x40, CHR 0x22, nl]"
  have a: "sh_script (bootstrap m) = sh_parse DoubleQuoted (Some ([], True)) ?cmd (m @ ?rest)"
    by (simp add: sh_script_def bootstrap_def sh_push_def sh_substitute_def sh_open_def
        sh_end_word_def sh_end_command_Nil)
  have b: "sh_parse DoubleQuoted (Some ([], True)) ?cmd (m @ ?rest) =
      sh_parse DoubleQuoted (Some ([] @ m, True)) ?cmd ?rest"
    using assms by (rule sh_parse_plain)
  have c: "sh_parse DoubleQuoted (Some (m, True)) ?cmd ?rest =
      Some [?cmd @ [(m, True), (''$@'', False)]]"
    by (simp add: sh_push_def sh_substitute_def sh_open_def sh_end_word_def sh_end_command_def)
  show ?thesis
    unfolding a b using c by simp
qed

text \<open>
  C6, as amended. \<open>generate_python_binary\<close> returns without error when every argument is
  a source that can be added. After a run that returns without error, the output file is
  the shell prologue followed by the archive as it was closed (the entries of the
  sources, then the markers), its permission bits are \<open>0o755\<close>, which hold the execute bit
  of the owner, and a zip reader finds in the file exactly the members of that archive.
  The prologue begins with the line \<open>#!/bin/sh\<close>. When the entry point has no double
  quote, no backslash, no \<open>$\<close> and no backquote, the shell reads the prologue as one
  command, whose words are the assignment of \<open>PYTHONPATH\<close>, \<open>exec\<close>, \<open>python\<close>, \<open>-m\<close>, the
  entry point as it was given, and \<open>$@\<close>.
\<close>

theorem python_binary_bootstrap_prepended:
  "(sources_ok L fs pybin exclusions args \<longrightarrow>
      returns_ok (generate_python_binary L fs pybin basedir exclusions mainentry args))
   \<and> (returns_ok (generate_python_binary L fs pybin basedir exclusions mainentry args) \<longrightarrow>
        pybin_output (generate_python_binary L fs pybin basedir exclusions mainentry args) pybin =
          Some (Prefixed (bootstrap mainentry)
            (ZipArchive (contributed L fs pybin exclusions args @
               init_py_markers (recorded_dirs (tracked L fs pybin exclusions args))
                 (dirs_having_init_py (tracked L fs pybin exclusions args)))))
        \<and> pybin_mode (generate_python_binary L fs pybin basedir exclusions mainentry args) pybin =
            Some mode_755
        \<and> odd (mode_755 div 64)
        \<and> map_option zip_members
             (pybin_output (generate_python_binary L fs pybin basedir exclusions mainentry args)
                pybin) =
            Some (Some (contributed L fs pybin exclusions args @
               init_py_markers (recorded_dirs (tracked L fs pybin exclusions args))
                 (dirs_having_init_py (tracked L fs pybin exclusions args))))
        \<and> map_option (\<lambda>b. startswith (prologue b) (''#!/bin/sh'' @ [nl]))
             (pybin_output (generate_python_binary L fs pybin basedir exclusions mainentry args)
                pybin) = Some True
        \<and> (shell_plain mainentry \<longrightarrow>
             map_option (\<lambda>b. sh_script (prologue b))
               (pybin_output (generate_python_binary L fs pybin basedir exclusions mainentry args)
                  pybin) =
             Some (Some [[(''PYTHONPATH=$0:$PYTHONPATH'', False), (''exec'', True),
                          (''python'', True), (''-m'', True), (mainentry, True),
                          (''$@'', False)]])))"
proof (intro conjI impI)
  assume "sources_ok L fs pybin exclusions args"
  then show "returns_ok (generate_python_binary L fs pybin basedir exclusions mainentry args)"
    by (rule generate_python_binary_returns)
next
  assume ok: "returns_ok (generate_python_binary L fs pybin basedir exclusions mainentry args)"
  note out = pybin_output_ok [OF ok]
  show "pybin_output (generate_python_binary L fs pybin basedir exclusions mainentry args) pybin =
          Some (Prefixed (bootstrap mainentry)
            (ZipArchive (contributed L fs pybin exclusions args @
               init_py_markers (recorded_dirs (tracked L fs pybin exclusions args))
                 (dirs_having_init_py (tracked L fs pybin exclusions args)))))"
    by (rule out(1))
  show "pybin_mode (generate_python_binary L fs pybin basedir exclusions mainentry args) pybin =
            Some mode_755"
    by (rule out(2))
  show "odd (mode_755 div 64)"
    by (simp add: mode_755_def)
  show "map_option zip_members
             (pybin_output (generate_python_binary L fs pybin basedir exclusions mainentry args)
                pybin) =
            Some (Some (contributed L fs pybin exclusions args @
               init_py_markers (recorded_dirs (tracked L fs pybin exclusions args))
                 (dirs_having_init_py (tracked L fs pybin exclusions args))))"
    by (simp add: out(1))
  show "map_option (\<lambda>b. startswith (prologue b) (''#!/bin/sh'' @ [nl]))
             (pybin_output (generate_python_binary L fs pybin basedir exclusions mainentry args)
                pybin) = Some True"
    by (simp add: out(1) prologue_def bootstrap_def startswith_def)
  assume "shell_plain mainentry"
  then show "map_option (\<lambda>b. sh_script (prologue b))
               (pybin_output (generate_python_binary L fs pybin basedir exclusions mainentry args)
                  pybin) =
             Some (Some [[(''PYTHONPATH=$0:$PYTHONPATH'', False), (''exec'', True),
                          (''python'', True), (''-m'', True), (mainentry, True),
                          (''$@'', False)]])"
    by (simp add: out(1) prologue_def bootstrap_script)
qed

theorem python_binary_bootstrap_prepended_witness:
  "returns_ok (generate_python_binary example_lib example_py ''app'' ''.'' ''*.pyc'' ''pkg.main''
        [''c.egg'', ''d.whl''])
   \<and> pybin_output (generate_python_binary example_lib example_py ''app'' ''.'' ''*.pyc'' ''pkg.main''
        [''c.egg'', ''d.whl'']) ''app'' =
     Some (Prefixed (bootstrap ''pkg.main'')
       (ZipArchive
          [(''eggpkg/e.py'', Plain ''e''),
           (''w/__init__.py'', Plain ''init of w''), (''w/x.py'', Plain ''x''),
           (''__init__.py'', Plain [])]))
   \<and> pybin_mode (generate_python_binary example_lib example_py ''app'' ''.'' ''*.pyc'' ''pkg.main''
        [''c.egg'', ''d.whl'']) ''app'' = Some mode_755
   \<and> map_option (\<lambda>b. sh_script (prologue b))
        (pybin_output (generate_python_binary example_lib example_py ''app'' ''.'' ''*.pyc''
           ''pkg.main'' [''c.egg'', ''d.whl'']) ''app'') =
      Some (Some [[(''PYTHONPATH=$0:$PYTHONPATH'', False), (''exec'', True),
                   (''python'', True), (''-m'', True), (''pkg.main'', True),
                   (''$@'', False)]])"
proof -
  have h: "sources_ok example_lib example_py ''app'' ''*.pyc'' [''c.egg'', ''d.whl'']"
    by code_simp
  have p: "shell_plain ''pkg.main''"
    by code_simp
  have c: "contributed example_lib example_py ''app'' ''*.pyc'' [''c.egg'', ''d.whl''] @
            init_py_markers (recorded_dirs (tracked example_lib example_py ''app'' ''*.pyc''
               [''c.egg'', ''d.whl'']))
              (dirs_having_init_py (tracked example_lib example_py ''app'' ''*.pyc''
               [''c.egg'', ''d.whl'']))
      = [(''eggpkg/e.py'', Plain ''e''),
           (''w/__init__.py'', Plain ''init of w''), (''w/x.py'', Plain ''x''),
           (''__init__.py'', Plain [])]"
    by code_simp
  note t = python_binary_bootstrap_prepended [of example_lib example_py "''app''" "''*.pyc''"
      "[''c.egg'', ''d.whl'']" "''.''" "''pkg.main''"]
  from t h have r: "returns_ok (generate_python_binary example_lib example_py ''app'' ''.''
      ''*.pyc'' ''pkg.main'' [''c.egg'', ''d.whl''])"
    by blast
  from t r p show ?thesis
    unfolding c by blast
qed

text \<open>
  C6 as stated fails: the entry point is written between double quotes as it is given.
  With the entry point \<open>a"b\<close> the run returns without error and the prologue it has
  written has a double quote that is never closed, so the text before the archive is not
  a complete script.
\<close>

theorem python_binary_prologue_counterexample:
  "returns_ok (generate_python_binary example_lib example_py ''app'' ''.'' ''*.pyc''
        [CHR ''a'', CHR 0x22, CHR ''b''] [''c.egg'', ''d.whl''])
   \<and> map_option prologue
        (pybin_output (generate_python_binary example_lib example_py ''app'' ''.'' ''*.pyc''
           [CHR ''a'', CHR 0x22, CHR ''b''] [''c.egg'', ''d.whl'']) ''app'') =
      Some (''#!/bin/sh'' @ [nl, nl] @
            ''PYTHONPATH=\"$0:$PYTHONPATH\" exec python -m \"a\"b\" \"$@\"'' @ [nl])
   \<and> map_option (\<lambda>b. sh_script (prologue b))
        (pybin_output (generate_python_binary example_lib example_py ''app'' ''.'' ''*.pyc''
           [CHR ''a'', CHR 0x22, CHR ''b''] [''c.egg'', ''d.whl'']) ''app'') = Some None"
  by code_simp

lemma members_named_concat:
  "members_named x (concat xss) = concat (map (members_named x) xss)"
  by (induction xss) (simp_all add: members_named_def)

lemma contributed_split:
  "contributed L fs pybin exclusions (pre @ A # mid @ B # post) =
     contributed L fs pybin exclusions pre
     @ source_entries L (write_file fs pybin Unfinished) (str_split CHR '','' exclusions) A
     @ contributed L fs pybin exclusions mid
     @ source_entries L (write_file fs pybin Unfinished) (str_split CHR '','' exclusions) B
     @ contributed L fs pybin exclusions post"
  by (simp add: contributed_def)

text \<open>
  C1, as amended. \<open>generate_python_binary\<close> returns without error when every argument is
  a source that can be added. It keeps no record of the names written and drops nothing:
  after a run that returns without error the members of the archive are the entries of
  the sources, in the order of the arguments, followed by the markers. So the members
  named \<open>x\<close> are the entries named \<open>x\<close> of each source in turn, then the markers named
  \<open>x\<close>; and when \<open>A\<close> is processed before \<open>B\<close> and both contribute an entry named \<open>x\<close>,
  the archive holds the entry of \<open>A\<close> and, after it, the entry of \<open>B\<close>.
\<close>

theorem python_binary_keeps_every_entry:
  "(sources_ok L fs pybin exclusions args \<longrightarrow>
      returns_ok (generate_python_binary L fs pybin basedir exclusions mainentry args))
   \<and> (returns_ok (generate_python_binary L fs pybin basedir exclusions mainentry args) \<longrightarrow>
       (\<exists>out.
          map_option zip_members
            (pybin_output (generate_python_binary L fs pybin basedir exclusions mainentry args) pybin)
            = Some (Some out)
        \<and> take (length (contributed L fs pybin exclusions args)) out
            = contributed L fs pybin exclusions args
        \<and> members_named x out =
            concat (map (\<lambda>arg. members_named x
                           (source_entries L (write_file fs pybin Unfinished)
                              (str_split CHR '','' exclusions) arg)) args)
            @ members_named x
                (init_py_markers (recorded_dirs (tracked L fs pybin exclusions args))
                   (dirs_having_init_py (tracked L fs pybin exclusions args)))
        \<and> (\<forall>pre A mid B post a b.
              args = pre @ A # mid @ B # post
              \<and> (x, a) \<in> set (source_entries L (write_file fs pybin Unfinished)
                                (str_split CHR '','' exclusions) A)
              \<and> (x, b) \<in> set (source_entries L (write_file fs pybin Unfinished)
                                (str_split CHR '','' exclusions) B)
              \<longrightarrow> (\<exists>l1 l2 l3. out = l1 @ (x, a) # l2 @ (x, b) # l3))))"
proof (intro conjI impI)
  assume "sources_ok L fs pybin exclusions args"
  then show "returns_ok (generate_python_binary L fs pybin basedir exclusions mainentry args)"
    by (rule generate_python_binary_returns)
next
  assume ok: "returns_ok (generate_python_binary L fs pybin basedir exclusions mainentry args)"
  let ?se = "source_entries L (write_file fs pybin Unfinished) (str_split CHR '','' exclusions)"
  let ?mk = "init_py_markers (recorded_dirs (tracked L fs pybin exclusions args))
               (dirs_having_init_py (tracked L fs pybin exclusions args))"
  let ?out = "contributed L fs pybin exclusions args @ ?mk"
  have z: "map_option zip_members
        (pybin_output (generate_python_binary L fs pybin basedir exclusions mainentry args) pybin)
        = Some (Some ?out)"
    by (simp add: pybin_output_ok(1) [OF ok])
  have t: "take (length (contributed L fs pybin exclusions args)) ?out
        = contributed L fs pybin exclusions args"
    by simp
  have m: "members_named x ?out =
        concat (map (\<lambda>arg. members_named x (?se arg)) args) @ members_named x ?mk"
    by (simp add: contributed_def members_named_concat comp_def)
  have p: "\<exists>l1 l2 l3. ?out = l1 @ (x, a) # l2 @ (x, b) # l3"
    if h: "args = pre @ A # mid @ B # post \<and> (x, a) \<in> set (?se A) \<and> (x, b) \<in> set (?se B)"
    for pre A mid B post a b
  proof -
    from h obtain a1 a2 where A: "?se A = a1 @ (x, a) # a2"
      by (meson split_list)
    from h obtain b1 b2 where B: "?se B = b1 @ (x, b) # b2"
      by (meson split_list)
    have "?out = (contributed L fs pybin exclusions pre @ a1) @ (x, a)
        # (a2 @ contributed L fs pybin exclusions mid @ b1) @ (x, b)
        # (b2 @ contributed L fs pybin exclusions post @ ?mk)"
      using h by (simp add: contributed_split A B)
    then show ?thesis by blast
  qed
  show "\<exists>out.
          map_option zip_members
            (pybin_output (generate_python_binary L fs pybin basedir exclusions mainentry args) pybin)
            = Some (Some out)
        \<and> take (length (contributed L fs pybin exclusions args)) out
            = contributed L fs pybin exclusions args
        \<and> members_named x out =
            concat (map (\<lambda>arg. members_named x
                           (source_entries L (write_file fs pybin Unfinished)
                              (str_split CHR '','' exclusions) arg)) args)
            @ members_named x
                (init_py_markers (recorded_dirs (tracked L fs pybin exclusions args))
                   (dirs_having_init_py (tracked L fs pybin exclusions args)))
        \<and> (\<forall>pre A mid B post a b.
              args = pre @ A # mid @ B # post
              \<and> (x, a) \<in> set (source_entries L (write_file fs pybin Unfinished)
                                (str_split CHR '','' exclusions) A)
              \<and> (x, b) \<in> set (source_entries L (write_file fs pybin Unfinished)
                                (str_split CHR '','' exclusions) B)
              \<longrightarrow> (\<exists>l1 l2 l3. out = l1 @ (x, a) # l2 @ (x, b) # l3))"
    using z t m p by (intro exI [of _ ?out]) blast
qed

theorem python_binary_keeps_every_entry_witness:
  "returns_ok (generate_python_binary example_lib example_py ''app'' ''.'' '''' ''pkg.main''
           [''a.pylib'', ''d.whl'', ''b.pylib''])
   \<and> (\<exists>out.
      map_option zip_members
        (pybin_output (generate_python_binary example_lib example_py ''app'' ''.'' '''' ''pkg.main''
           [''a.pylib'', ''d.whl'', ''b.pylib'']) ''app'')
        = Some (Some out)
    \<and> members_named ''pkg/mod.py'' out =
        [(''pkg/mod.py'', Plain ''mod of a''), (''pkg/mod.py'', Plain ''mod of b'')])"
proof -
  have h: "sources_ok example_lib example_py ''app'' '''' [''a.pylib'', ''d.whl'', ''b.pylib'']"
    by code_simp
  have c: "concat (map (\<lambda>arg. members_named ''pkg/mod.py''
                       (source_entries example_lib (write_file example_py ''app'' Unfinished)
                          (str_split CHR '','' '''') arg)) [''a.pylib'', ''d.whl'', ''b.pylib''])
        @ members_named ''pkg/mod.py''
            (init_py_markers (recorded_dirs (tracked example_lib example_py ''app'' ''''
                 [''a.pylib'', ''d.whl'', ''b.pylib'']))
               (dirs_having_init_py (tracked example_lib example_py ''app'' ''''
                 [''a.pylib'', ''d.whl'', ''b.pylib''])))
      = [(''pkg/mod.py'', Plain ''mod of a''), (''pkg/mod.py'', Plain ''mod of b'')]"
    by code_simp
  note t = python_binary_keeps_every_entry [of example_lib example_py "''app''" "''''"
      "[''a.pylib'', ''d.whl'', ''b.pylib'']" "''.''" "''pkg.main''" "''pkg/mod.py''"]
  from t h have r: "returns_ok (generate_python_binary example_lib example_py ''app'' ''.'' ''''
      ''pkg.main'' [''a.pylib'', ''d.whl'', ''b.pylib''])"
    by blast
  from t r show ?thesis
    unfolding c by blast
qed

text \<open>
  C1 as stated fails: two library descriptors that both list \<open>pkg/mod.py\<close> give an
  archive with two members of that name, the second with the content of the second
  descriptor's file.
\<close>

theorem python_binary_dedup_counterexample:
  "map_option (\<lambda>b. map_option (members_named ''pkg/mod.py'') (zip_members b))
     (pybin_output (generate_python_binary example_lib example_py ''app'' ''.'' '''' ''pkg.main''
        [''a.pylib'', ''b.pylib'']) ''app'')
   = Some (Some [(''pkg/mod.py'', Plain ''mod of a''), (''pkg/mod.py'', Plain ''mod of b'')])"
  by code_simp

lemma finite_recorded_dirs: "finite (recorded_dirs names)"
  by (simp add: recorded_dirs_def)

lemma set_init_py_markers:
  "set (init_py_markers (recorded_dirs names) W) =
     (\<lambda>dir. (path_join dir ''__init__.py'', Plain [])) ` (recorded_dirs names - W)
     \<union> {(''__init__.py'', Plain [])}"
  by (simp add: init_py_markers_def finite_recorded_dirs)

lemma parent_chain_elements:
  assumes "\<not> absolute e" and "e = [] \<or> last e \<noteq> CHR ''/''"
  shows "\<forall>d \<in> set (parent_chain k e). d \<noteq> [] \<and> last d \<noteq> CHR ''/'' \<and> \<not> absolute d"
  using assms
proof (induction k arbitrary: e)
  case 0
  show ?case by simp
next
  case (Suc k)
  show ?case
  proof (cases "e = []")
    case True
    then show ?thesis by simp
  next
    case False
    have r: "\<not> absolute (dirname e)" using Suc.prems(1) by (rule dirname_relative)
    have "dirname e = [] \<or> last (dirname e) \<noteq> CHR ''/''"
      using dirname_no_trailing_slash [OF Suc.prems(1)] by blast
    from Suc.IH [OF r this] False Suc.prems show ?thesis by simp
  qed
qed

lemma parent_dirs_elements:
  assumes "\<not> absolute n"
  shows "\<forall>d \<in> set (parent_dirs n). d \<noteq> [] \<and> last d \<noteq> CHR ''/'' \<and> \<not> absolute d"
  unfolding parent_dirs_def
proof (rule parent_chain_elements)
  show "\<not> absolute (dirname n)" using assms by (rule dirname_relative)
  show "dirname n = [] \<or> last (dirname n) \<noteq> CHR ''/''"
    using dirname_no_trailing_slash [OF assms] by blast
qed



lemma marker_of_join:
  assumes "d \<noteq> []" and "last d \<noteq> CHR ''/''"
  shows "is_marker_of d (path_join d ''__init__.py'', c)"
proof -
  have "\<not> endswith d ''/''"
    using assms by (auto simp: endswith_def)
       (metis append_take_drop_id last_appendR last.simps list.distinct(1))
  then have j: "path_join d ''__init__.py'' = d @ CHR ''/'' # ''__init__.py''"
    using assms(1) by (simp add: path_join_def startswith_def)
  have "CHR ''/'' \<notin> set ''__init__.py''" by simp
  from dirname_basename_of_join [OF assms this] show ?thesis
    by (simp add: is_marker_of_def j)
qed

lemma names_pylib_entries:
  "map fst (pylib_entries L fs exclusions base srcs) =
   map stored_name (pylib_arcnames L exclusions base srcs)"
  by (induction srcs) (auto simp: pylib_entries_def pylib_arcnames_def)

lemma source_arcnames_kept:
  assumes "stored_as_named L fs exclusions arg"
  shows "source_arcnames L fs exclusions arg = map fst (source_entries L fs exclusions arg)"
proof (cases "endswith arg ''.pylib''")
  case False
  then show ?thesis by (simp add: source_arcnames_def)
next
  case True
  with assms have k: "\<forall>n \<in> set (source_arcnames L fs exclusions arg). stored_name n = n"
    by (simp add: stored_as_named_def list_all_iff stored_name_def)
  show ?thesis
  proof (cases "\<exists>base srcs. files fs arg = Some (Descriptor base srcs)")
    case False
    with True show ?thesis
      by (auto simp: source_arcnames_def source_entries_def split: option.splits blob.splits)
  next
    case d: True
    then obtain base srcs where d: "files fs arg = Some (Descriptor base srcs)" by blast
    have a: "source_arcnames L fs exclusions arg = pylib_arcnames L exclusions base srcs"
      using True d by (simp add: source_arcnames_def)
    have e: "source_entries L fs exclusions arg = pylib_entries L fs exclusions base srcs"
      using True d by (simp add: source_entries_def)
    from k have "map stored_name (pylib_arcnames L exclusions base srcs)
        = pylib_arcnames L exclusions base srcs"
      unfolding a by (simp add: map_idI)
    then show ?thesis
      unfolding a e names_pylib_entries by simp
  qed
qed

lemma tracked_kept:
  assumes "names_kept L fs pybin exclusions args"
  shows "tracked L fs pybin exclusions args =
     concat (map (\<lambda>arg. if is_egg arg then []
                         else map fst (source_entries L (write_file fs pybin Unfinished)
                                         (str_split CHR '','' exclusions) arg)) args)"
proof -
  from assms have "\<forall>arg \<in> set args.
      source_arcnames L (write_file fs pybin Unfinished) (str_split CHR '','' exclusions) arg =
      map fst (source_entries L (write_file fs pybin Unfinished)
                 (str_split CHR '','' exclusions) arg)"
    by (auto simp: names_kept_def list_all_iff intro: source_arcnames_kept)
  then have "map (\<lambda>arg. if is_egg arg then []
        else source_arcnames L (write_file fs pybin Unfinished)
               (str_split CHR '','' exclusions) arg) args
    = map (\<lambda>arg. if is_egg arg then []
        else map fst (source_entries L (write_file fs pybin Unfinished)
                        (str_split CHR '','' exclusions) arg)) args"
    by (intro map_cong) simp_all
  then have "concat (map (\<lambda>arg. if is_egg arg then []
        else source_arcnames L (write_file fs pybin Unfinished)
               (str_split CHR '','' exclusions) arg) args)
    = concat (map (\<lambda>arg. if is_egg arg then []
        else map fst (source_entries L (write_file fs pybin Unfinished)
                        (str_split CHR '','' exclusions) arg)) args)"
    by (rule arg_cong)
  then show ?thesis
    unfolding tracked_def tracked_names_def .
qed

lemma tracked_in_contributed:
  assumes "names_kept L fs pybin exclusions args"
    and "n \<in> set (tracked L fs pybin exclusions args)"
  shows "\<exists>c. (n, c) \<in> set (contributed L fs pybin exclusions args)"
  using assms(2) unfolding tracked_kept [OF assms(1)]
  by (auto simp: contributed_def split: if_splits) blast

lemma markers_for_recorded:
  assumes ok: "returns_ok (generate_python_binary L fs pybin basedir exclusions mainentry args)"
    and n: "n \<in> set (tracked L fs pybin exclusions args)"
    and d: "d \<in> set (parent_dirs n)"
  shows "d \<in> recorded_dirs (tracked L fs pybin exclusions args)"
    and "d \<notin> dirs_having_init_py (tracked L fs pybin exclusions args) \<Longrightarrow>
         (path_join d ''__init__.py'', Plain [])
           \<in> set (init_py_markers (recorded_dirs (tracked L fs pybin exclusions args))
                   (dirs_having_init_py (tracked L fs pybin exclusions args)))"
    and "is_marker_of d (path_join d ''__init__.py'', Plain [])"
proof -
  show r: "d \<in> recorded_dirs (tracked L fs pybin exclusions args)"
    using n d by (auto simp: recorded_dirs_def)
  show "(path_join d ''__init__.py'', Plain [])
           \<in> set (init_py_markers (recorded_dirs (tracked L fs pybin exclusions args))
                   (dirs_having_init_py (tracked L fs pybin exclusions args)))"
    if "d \<notin> dirs_having_init_py (tracked L fs pybin exclusions args)"
    using r that by (simp add: set_init_py_markers)
  have "\<not> absolute n"
    using generate_python_binary_ok(3) [OF ok] n by blast
  from parent_dirs_elements [OF this] d have "d \<noteq> []" "last d \<noteq> CHR ''/''" by auto
  then show "is_marker_of d (path_join d ''__init__.py'', Plain [])"
    by (rule marker_of_join)
qed

text \<open>
  C2, as amended. \<open>generate_python_binary\<close> returns without error when every argument is
  a source that can be added. After a run that returns without error, the last member of
  the archive is the empty \<open>__init__.py\<close> of the root; and when the entries of the
  library descriptors are stored under the names the descriptors give them (as the
  results of \<open>os.path.relpath\<close> are), every entry of a library descriptor or a wheel is a
  member of the archive, and every directory above it (the directory of the entry, the
  directory of that directory, and so on) holds a member \<open>__init__.py\<close>, contributed by
  such a source or synthesized empty. The directories of entries that come from eggs are
  not covered.
\<close>

theorem python_binary_markers:
  "(sources_ok L fs pybin exclusions args \<longrightarrow>
      returns_ok (generate_python_binary L fs pybin basedir exclusions mainentry args))
   \<and> (returns_ok (generate_python_binary L fs pybin basedir exclusions mainentry args) \<longrightarrow>
       (\<exists>out.
          map_option zip_members
            (pybin_output (generate_python_binary L fs pybin basedir exclusions mainentry args) pybin)
            = Some (Some out)
        \<and> (names_kept L fs pybin exclusions args \<longrightarrow>
             (\<forall>n \<in> set (tracked L fs pybin exclusions args).
                (\<exists>c. (n, c) \<in> set out)
                \<and> (\<forall>d \<in> set (parent_dirs n). \<exists>m \<in> set out. is_marker_of d m)))
        \<and> out \<noteq> [] \<and> last out = (''__init__.py'', Plain [])))"
proof (intro conjI impI)
  assume "sources_ok L fs pybin exclusions args"
  then show "returns_ok (generate_python_binary L fs pybin basedir exclusions mainentry args)"
    by (rule generate_python_binary_returns)
next
  assume ok: "returns_ok (generate_python_binary L fs pybin basedir exclusions mainentry args)"
  let ?tn = "tracked L fs pybin exclusions args"
  let ?mk = "init_py_markers (recorded_dirs ?tn) (dirs_having_init_py ?tn)"
  let ?out = "contributed L fs pybin exclusions args @ ?mk"
  have z: "map_option zip_members
        (pybin_output (generate_python_binary L fs pybin basedir exclusions mainentry args) pybin)
        = Some (Some ?out)"
    by (simp add: pybin_output_ok(1) [OF ok])
  have l: "?out \<noteq> [] \<and> last ?out = (''__init__.py'', Plain [])"
    by (simp add: init_py_markers_def)
  have m: "(\<exists>c. (n, c) \<in> set ?out) \<and> (\<forall>d \<in> set (parent_dirs n). \<exists>m \<in> set ?out. is_marker_of d m)"
    if kept: "names_kept L fs pybin exclusions args" and n: "n \<in> set ?tn" for n
  proof
    show "\<exists>c. (n, c) \<in> set ?out"
      using tracked_in_contributed [OF kept n] by auto
    show "\<forall>d \<in> set (parent_dirs n). \<exists>m \<in> set ?out. is_marker_of d m"
    proof
      fix d assume d: "d \<in> set (parent_dirs n)"
      show "\<exists>m \<in> set ?out. is_marker_of d m"
      proof (cases "d \<in> dirs_having_init_py ?tn")
        case True
        then obtain n' where n': "n' \<in> set ?tn" "dirname n' = d" "basename n' = ''__init__.py''"
          by (auto simp: dirs_having_init_py_def)
        from tracked_in_contributed [OF kept n'(1)] obtain c where
          "(n', c) \<in> set (contributed L fs pybin exclusions args)" ..
        moreover have "is_marker_of d (n', c)"
          using n' by (simp add: is_marker_of_def)
        ultimately show ?thesis by auto
      next
        case False
        from markers_for_recorded(2) [OF ok n d False] markers_for_recorded(3) [OF ok n d]
        show ?thesis by auto
      qed
    qed
  qed
  show "\<exists>out.
          map_option zip_members
            (pybin_output (generate_python_binary L fs pybin basedir exclusions mainentry args) pybin)
            = Some (Some out)
        \<and> (names_kept L fs pybin exclusions args \<longrightarrow>
             (\<forall>n \<in> set (tracked L fs pybin exclusions args).
                (\<exists>c. (n, c) \<in> set out)
                \<and> (\<forall>d \<in> set (parent_dirs n). \<exists>m \<in> set out. is_marker_of d m)))
        \<and> out \<noteq> [] \<and> last out = (''__init__.py'', Plain [])"
    using z l m by (intro exI [of _ ?out]) blast
qed

theorem python_binary_markers_witness:
  "returns_ok (generate_python_binary example_lib example_py ''app'' ''.'' '''' ''pkg.main''
           [''a.pylib'', ''d.whl''])
   \<and> (\<exists>out.
      map_option zip_members
        (pybin_output (generate_python_binary example_lib example_py ''app'' ''.'' '''' ''pkg.main''
           [''a.pylib'', ''d.whl'']) ''app'')
        = Some (Some out)
    \<and> (\<exists>m \<in> set out. is_marker_of ''pkg/sub'' m)
    \<and> (\<exists>m \<in> set out. is_marker_of ''pkg'' m)
    \<and> (\<exists>m \<in> set out. is_marker_of ''w'' m)
    \<and> last out = (''__init__.py'', Plain []))"
proof -
  have h: "sources_ok example_lib example_py ''app'' '''' [''a.pylib'', ''d.whl'']"
    by code_simp
  have k: "names_kept example_lib example_py ''app'' '''' [''a.pylib'', ''d.whl'']"
    by code_simp
  have t: "tracked example_lib example_py ''app'' '''' [''a.pylib'', ''d.whl'']
      = [''pkg/mod.py'', ''pkg/sub/util.py'', ''w/__init__.py'', ''w/x.py'']"
    by code_simp
  have p1: "parent_dirs ''pkg/sub/util.py'' = [''pkg/sub'', ''pkg'']"
    by code_simp
  have p2: "parent_dirs ''w/x.py'' = [''w'']"
    by code_simp
  note inst = python_binary_markers [of example_lib example_py "''app''" "''''"
      "[''a.pylib'', ''d.whl'']" "''.''" "''pkg.main''"]
  from inst h have r: "returns_ok (generate_python_binary example_lib example_py ''app'' ''.'' ''''
      ''pkg.main'' [''a.pylib'', ''d.whl''])"
    by blast
  from inst r k obtain out where
    z: "map_option zip_members
        (pybin_output (generate_python_binary example_lib example_py ''app'' ''.'' '''' ''pkg.main''
           [''a.pylib'', ''d.whl'']) ''app'')
        = Some (Some out)"
    and m: "\<forall>n \<in> set (tracked example_lib example_py ''app'' '''' [''a.pylib'', ''d.whl'']).
          (\<exists>c. (n, c) \<in> set out)
          \<and> (\<forall>d \<in> set (parent_dirs n). \<exists>m \<in> set out. is_marker_of d m)"
    and l: "last out = (''__init__.py'', Plain [])"
    by blast
  from m have "\<forall>d \<in> set (parent_dirs ''pkg/sub/util.py''). \<exists>m \<in> set out. is_marker_of d m"
    and "\<forall>d \<in> set (parent_dirs ''w/x.py''). \<exists>m \<in> set out. is_marker_of d m"
    unfolding t by simp_all
  then have "(\<exists>m \<in> set out. is_marker_of ''pkg/sub'' m)
    \<and> (\<exists>m \<in> set out. is_marker_of ''pkg'' m)
    \<and> (\<exists>m \<in> set out. is_marker_of ''w'' m)"
    unfolding p1 p2 by simp
  with r z l show ?thesis by blast
qed

text \<open>
  C2 as stated fails for eggs: the entry \<open>eggpkg/e.py\<close> of an egg is written, and the
  archive has no \<open>__init__.py\<close> in the directory \<open>eggpkg\<close>.
\<close>

theorem python_binary_markers_counterexample:
  "map_option zip_members
     (pybin_output (generate_python_binary example_lib example_py ''app'' ''.'' '''' ''pkg.main''
        [''c.egg'']) ''app'')
     = Some (Some [(''eggpkg/e.py'', Plain ''e''), (''__init__.py'', Plain [])])
   \<and> dirname ''eggpkg/e.py'' = ''eggpkg''
   \<and> \<not> list_ex (is_marker_of ''eggpkg'')
         [(''eggpkg/e.py'', Plain ''e''), (''__init__.py'', Plain [])]"
  by code_simp





subsection \<open>The suffixes of tar packages\<close>

lemma endswith_last3:
  "endswith p s \<Longrightarrow> 3 \<le> length s \<Longrightarrow> drop (length p - 3) p = drop (length s - 3) s"
proof -
  assume e: "endswith p s" and l: "3 \<le> length s"
  then have lp: "length s \<le> length p" and d: "drop (length p - length s) p = s"
    by (simp_all add: endswith_def)
  have "drop (length p - 3) p = drop (length s - 3) (drop (length p - length s) p)"
    using lp l by simp
  with d show ?thesis by simp
qed

text \<open>
  No path ends with two of the tar suffixes, so the order in which the loop of
  \<open>generate_package\<close> visits the keys of the dictionary does not matter.
\<close>

lemma tar_suffix_unique:
  assumes "s1 \<in> set (map fst TAR_WRITE_MODES)" and "s2 \<in> set (map fst TAR_WRITE_MODES)"
    and "endswith path s1" and "endswith path s2"
  shows "s1 = s2"
proof -
  from assms(3) assms(1) have a: "drop (length path - 3) path = drop (length s1 - 3) s1"
    by (intro endswith_last3) (auto simp: TAR_WRITE_MODES_def)
  from assms(4) assms(2) have b: "drop (length path - 3) path = drop (length s2 - 3) s2"
    by (intro endswith_last3) (auto simp: TAR_WRITE_MODES_def)
  from a b have "drop (length s1 - 3) s1 = drop (length s2 - 3) s2" by simp
  with assms(1,2) show ?thesis
    by (auto simp: TAR_WRITE_MODES_def)
qed

end
